theory Spec2Isabelle
  imports Main "HOL-Library.Word"
begin

section \<open>JavaScript strings\<close>

text \<open>
  The program is TypeScript run by Node.js. A JavaScript string is a sequence of UTF-16
  code units, so the embedding uses lists of 16-bit words. \<open>ascii\<close> writes such a
  string from an Isabelle literal; the double quote is the code unit \<open>0x22\<close> and the
  backslash is \<open>0x5C\<close>.
\<close>

type_synonym jschar = "16 word"
type_synonym jsstring = "jschar list"

definition ascii :: "string \<Rightarrow> jsstring" where
  "ascii s = map (\<lambda>c. of_nat (of_char c)) s"

definition is_digit :: "jschar \<Rightarrow> bool" where
  "is_digit c \<longleftrightarrow> 0x30 \<le> c \<and> c \<le> 0x39"

definition digit_val :: "jschar \<Rightarrow> nat" where
  "digit_val c = unat c - 48"

definition digits_val :: "jsstring \<Rightarrow> nat" where
  "digits_val ds = foldl (\<lambda>n c. 10 * n + digit_val c) 0 ds"

text \<open>Decimal digits of a natural number, most significant first (\<open>0\<close> is \<open>"0"\<close>).\<close>

fun nat_digits :: "nat \<Rightarrow> jsstring" where
  "nat_digits n = (if n < 10 then [of_nat (48 + n)]
                   else nat_digits (n div 10) @ [of_nat (48 + n mod 10)])"

declare nat_digits.simps [simp del]

section \<open>JSON values of the runtime\<close>

text \<open>
  What \<open>JSON.parse\<close> returns. A number keeps the exact decimal value of its literal,
  \<open>JNum m e\<close> standing for \<open>m * 10^e\<close>; an object keeps its properties in the order
  in which the runtime enumerates them. A property that is read and missing is
  \<open>undefined\<close>, modelled by \<open>None\<close> of an option.
\<close>

datatype json =
    JNull
  | JBool bool
  | JNum int int
  | JStr jsstring
  | JArr "json list"
  | JObj "(jsstring \<times> json) list"

text \<open>
  \<open>ToBoolean\<close>. The number is the double nearest to the literal's value: it is zero when
  the mantissa is zero or the value is at most \<open>2^-1075\<close>, which rounds to zero.
\<close>

definition num_is_zero :: "int \<Rightarrow> int \<Rightarrow> bool" where
  "num_is_zero m e \<longleftrightarrow> m = 0 \<or> (e < 0 \<and> \<bar>m\<bar> * 2 ^ 1075 \<le> 10 ^ nat (- e))"

fun truthy :: "json \<Rightarrow> bool" where
  "truthy JNull = False"
| "truthy (JBool b) = b"
| "truthy (JNum m e) = (\<not> num_is_zero m e)"
| "truthy (JStr s) = (s \<noteq> [])"
| "truthy (JArr vs) = True"
| "truthy (JObj kvs) = True"

text \<open>\<open>a || b\<close> where \<open>a\<close> is a property read (possibly undefined).\<close>

fun js_or :: "json option \<Rightarrow> json \<Rightarrow> json" where
  "js_or None d = d"
| "js_or (Some v) d = (if truthy v then v else d)"

text \<open>
  Reading a property \<open>json.name\<close> of a parsed value that is not \<open>null\<close>: an own property
  of an object, undefined on every other value (none of the names read by the program is
  on a prototype).
\<close>

fun get_prop :: "json \<Rightarrow> jsstring \<Rightarrow> json option" where
  "get_prop (JObj kvs) k = map_of kvs k"
| "get_prop _ k = None"

section \<open>JSON.stringify\<close>

definition hex_digit :: "nat \<Rightarrow> jschar" where
  "hex_digit n = (if n < 10 then of_nat (48 + n) else of_nat (87 + n))"

definition unicode_escape :: "jschar \<Rightarrow> jsstring" where
  "unicode_escape c =
     (let n = unat c
      in [0x5C, 0x75, hex_digit (n div 4096), hex_digit (n div 256 mod 16),
          hex_digit (n div 16 mod 16), hex_digit (n mod 16)])"

definition is_lead :: "jschar \<Rightarrow> bool" where
  "is_lead c \<longleftrightarrow> 0xD800 \<le> c \<and> c \<le> 0xDBFF"

definition is_trail :: "jschar \<Rightarrow> bool" where
  "is_trail c \<longleftrightarrow> 0xDC00 \<le> c \<and> c \<le> 0xDFFF"

text \<open>
  \<open>QuoteJSONString\<close> of ECMA-262: the two-character escapes, \<open>\uXXXX\<close> (lower-case hex)
  for the other control characters and for a surrogate without its partner, everything
  else as it is.
\<close>

definition quote_unit :: "jschar \<Rightarrow> jsstring" where
  "quote_unit c =
     (if c = 0x08 then [0x5C, 0x62]
      else if c = 0x09 then [0x5C, 0x74]
      else if c = 0x0A then [0x5C, 0x6E]
      else if c = 0x0C then [0x5C, 0x66]
      else if c = 0x0D then [0x5C, 0x72]
      else if c = 0x22 then [0x5C, 0x22]
      else if c = 0x5C then [0x5C, 0x5C]
      else if c < 0x20 \<or> is_lead c \<or> is_trail c then unicode_escape c
      else [c])"

fun quote_units :: "jsstring \<Rightarrow> jsstring" where
  "quote_units [] = []"
| "quote_units [c] = quote_unit c"
| "quote_units (c # d # cs) =
     (if is_lead c \<and> is_trail d then c # d # quote_units cs
      else quote_unit c @ quote_units (d # cs))"

definition QuoteJSONString :: "jsstring \<Rightarrow> jsstring" where
  "QuoteJSONString s = 0x22 # quote_units s @ [0x22]"

text \<open>
  \<open>Number::toString\<close> of the double nearest to \<open>m * 10^e\<close>. It is modelled where it needs
  no floating-point rounding: the value is an integer of magnitude below \<open>2^53\<close>, which
  is a double and prints as its decimal digits. Elsewhere the result is \<open>None\<close>: the text
  is outside the model.
\<close>

definition Number_toString :: "int \<Rightarrow> int \<Rightarrow> jsstring option" where
  "Number_toString m e =
     (if 0 \<le> e \<or> m mod 10 ^ nat (- e) = 0
      then (let v = (if 0 \<le> e then m * 10 ^ nat e else m div 10 ^ nat (- e))
            in if \<bar>v\<bar> < 2 ^ 53
               then Some ((if v < 0 then [0x2D] else []) @ nat_digits (nat \<bar>v\<bar>))
               else None)
      else None)"

fun join_comma :: "jsstring list \<Rightarrow> jsstring" where
  "join_comma [] = []"
| "join_comma [x] = x"
| "join_comma (x # y # ys) = x @ 0x2C # join_comma (y # ys)"

fun sequence_opt :: "'a option list \<Rightarrow> 'a list option" where
  "sequence_opt [] = Some []"
| "sequence_opt (None # xs) = None"
| "sequence_opt (Some x # xs) = map_option (Cons x) (sequence_opt xs)"

text \<open>\<open>JSON.stringify(value)\<close> with no replacer and no indentation, on a parsed value.\<close>

fun JSON_stringify :: "json \<Rightarrow> jsstring option" where
  "JSON_stringify JNull = Some (ascii ''null'')"
| "JSON_stringify (JBool b) = Some (if b then ascii ''true'' else ascii ''false'')"
| "JSON_stringify (JNum m e) = Number_toString m e"
| "JSON_stringify (JStr s) = Some (QuoteJSONString s)"
| "JSON_stringify (JArr vs) =
     map_option (\<lambda>ts. 0x5B # join_comma ts @ [0x5D])
       (sequence_opt (map JSON_stringify vs))"
| "JSON_stringify (JObj kvs) =
     map_option (\<lambda>ts. 0x7B # join_comma ts @ [0x7D])
       (sequence_opt (map (\<lambda>(k, v). map_option (\<lambda>t. QuoteJSONString k @ 0x3A # t)
                                          (JSON_stringify v)) kvs))"

section \<open>JSON.parse\<close>

text \<open>
  The JSON grammar of ECMA-404 as the runtime reads it: the text is cut into tokens, and
  the tokens are read with an explicit stack of the arrays and objects still open.
  A syntax error (the runtime throws \<open>SyntaxError\<close>) is \<open>None\<close>.
\<close>

datatype token =
    TLBrace | TRBrace | TLBrack | TRBrack | TColon | TComma
  | TStr jsstring | TNum int int | TTrue | TFalse | TNull

definition is_json_ws :: "jschar \<Rightarrow> bool" where
  "is_json_ws c \<longleftrightarrow> c = 0x20 \<or> c = 0x09 \<or> c = 0x0A \<or> c = 0x0D"

definition hex_val :: "jschar \<Rightarrow> nat option" where
  "hex_val c =
     (if 0x30 \<le> c \<and> c \<le> 0x39 then Some (unat c - 48)
      else if 0x61 \<le> c \<and> c \<le> 0x66 then Some (unat c - 87)
      else if 0x41 \<le> c \<and> c \<le> 0x46 then Some (unat c - 55)
      else None)"

definition hex4 :: "jschar \<Rightarrow> jschar \<Rightarrow> jschar \<Rightarrow> jschar \<Rightarrow> jschar option" where
  "hex4 a b c d =
     (case (hex_val a, hex_val b, hex_val c, hex_val d) of
        (Some x, Some y, Some z, Some w) \<Rightarrow> Some (of_nat (((x * 16 + y) * 16 + z) * 16 + w))
      | _ \<Rightarrow> None)"

definition unescape :: "jschar \<Rightarrow> jschar option" where
  "unescape e =
     (if e = 0x22 then Some 0x22
      else if e = 0x5C then Some 0x5C
      else if e = 0x2F then Some 0x2F
      else if e = 0x62 then Some 0x08
      else if e = 0x66 then Some 0x0C
      else if e = 0x6E then Some 0x0A
      else if e = 0x72 then Some 0x0D
      else if e = 0x74 then Some 0x09
      else None)"

text \<open>The characters of a string after its opening quote, and the text after its closing quote.\<close>

fun lex_string :: "jsstring \<Rightarrow> (jsstring \<times> jsstring) option" where
  "lex_string [] = None"
| "lex_string (c # cs) =
     (if c = 0x22 then Some ([], cs)
      else if c = 0x5C then
        (case cs of
           [] \<Rightarrow> None
         | e # es \<Rightarrow>
             if e = 0x75 then
               (case es of
                  h1 # h2 # h3 # h4 # rest \<Rightarrow>
                    (case hex4 h1 h2 h3 h4 of
                       None \<Rightarrow> None
                     | Some u \<Rightarrow> map_option (\<lambda>(s, r). (u # s, r)) (lex_string rest))
                | _ \<Rightarrow> None)
             else
               (case unescape e of
                  None \<Rightarrow> None
                | Some u \<Rightarrow> map_option (\<lambda>(s, r). (u # s, r)) (lex_string es)))
      else if c < 0x20 then None
      else map_option (\<lambda>(s, r). (c # s, r)) (lex_string cs))"

text \<open>The optional fraction and exponent of a number, each with the text that follows.\<close>

definition lex_frac :: "jsstring \<Rightarrow> (jsstring \<times> jsstring) option" where
  "lex_frac s =
     (case s of
        c # r \<Rightarrow>
          if c = 0x2E then
            (let fd = takeWhile is_digit r
             in if fd = [] then None else Some (fd, dropWhile is_digit r))
          else Some ([], s)
      | [] \<Rightarrow> Some ([], s))"

definition lex_exp_digits :: "bool \<Rightarrow> jsstring \<Rightarrow> (int \<times> jsstring) option" where
  "lex_exp_digits neg r =
     (let ed = takeWhile is_digit r
      in if ed = [] then None
         else Some ((if neg then - int (digits_val ed) else int (digits_val ed)),
                    dropWhile is_digit r))"

definition lex_exp :: "jsstring \<Rightarrow> (int \<times> jsstring) option" where
  "lex_exp s =
     (case s of
        c # r \<Rightarrow>
          if c = 0x65 \<or> c = 0x45 then
            (case r of
               g # r' \<Rightarrow>
                 if g = 0x2B then lex_exp_digits False r'
                 else if g = 0x2D then lex_exp_digits True r'
                 else lex_exp_digits False r
             | [] \<Rightarrow> None)
          else Some (0, s)
      | [] \<Rightarrow> Some (0, s))"

text \<open>
  A number after its optional sign: \<open>0\<close> or a digit sequence that does not start with
  \<open>0\<close>, then fraction and exponent. The result is the mantissa, the decimal exponent
  and the text that follows.
\<close>

definition lex_unsigned :: "jsstring \<Rightarrow> (nat \<times> int \<times> jsstring) option" where
  "lex_unsigned s =
     (case s of
        [] \<Rightarrow> None
      | c # r \<Rightarrow>
          if \<not> is_digit c then None
          else
            (let ip = (if c = 0x30 then [c] else c # takeWhile is_digit r);
                 s2 = (if c = 0x30 then r else dropWhile is_digit r)
             in case lex_frac s2 of
                  None \<Rightarrow> None
                | Some (fd, s3) \<Rightarrow>
                    (case lex_exp s3 of
                       None \<Rightarrow> None
                     | Some (ex, s4) \<Rightarrow>
                         Some (digits_val (ip @ fd), ex - int (length fd), s4))))"

definition lex_literal :: "string \<Rightarrow> token \<Rightarrow> jsstring \<Rightarrow> (token \<times> jsstring) option" where
  "lex_literal w t s =
     (if take (length w) s = ascii w then Some (t, drop (length w) s) else None)"

text \<open>The token that starts with \<open>c\<close> (not white space), and the text after it.\<close>

definition next_token :: "jschar \<Rightarrow> jsstring \<Rightarrow> (token \<times> jsstring) option" where
  "next_token c cs =
     (if c = 0x7B then Some (TLBrace, cs)
      else if c = 0x7D then Some (TRBrace, cs)
      else if c = 0x5B then Some (TLBrack, cs)
      else if c = 0x5D then Some (TRBrack, cs)
      else if c = 0x3A then Some (TColon, cs)
      else if c = 0x2C then Some (TComma, cs)
      else if c = 0x22 then map_option (\<lambda>(s, r). (TStr s, r)) (lex_string cs)
      else if c = 0x2D then
        map_option (\<lambda>(m, e, r). (TNum (- int m) e, r)) (lex_unsigned cs)
      else if is_digit c then
        map_option (\<lambda>(m, e, r). (TNum (int m) e, r)) (lex_unsigned (c # cs))
      else if c = 0x74 then lex_literal ''rue'' TTrue cs
      else if c = 0x66 then lex_literal ''alse'' TFalse cs
      else if c = 0x6E then lex_literal ''ull'' TNull cs
      else None)"

lemma lex_string_length: "lex_string s = Some (v, r) \<Longrightarrow> length r < length s"
proof (induction s arbitrary: v r rule: lex_string.induct)
  case 1
  then show ?case by simp
next
  case (2 c cs)
  then show ?case
    by (fastforce split: if_splits list.splits option.splits)
qed

lemma lex_frac_length: "lex_frac s = Some (fd, r) \<Longrightarrow> length r \<le> length s"
  by (auto simp: lex_frac_def Let_def split: list.splits if_splits
           intro: le_trans [OF length_dropWhile_le])

lemma lex_exp_digits_length: "lex_exp_digits b s = Some (x, r) \<Longrightarrow> length r \<le> length s"
  by (auto simp: lex_exp_digits_def Let_def split: if_splits intro: length_dropWhile_le)

lemma lex_exp_length: "lex_exp s = Some (x, r) \<Longrightarrow> length r \<le> length s"
  by (auto simp: lex_exp_def split: list.splits if_splits
           dest!: lex_exp_digits_length)

lemma lex_unsigned_length: "lex_unsigned s = Some (m, e, r) \<Longrightarrow> length r < length s"
proof -
  assume a: "lex_unsigned s = Some (m, e, r)"
  then obtain c t where s: "s = c # t" by (cases s) (auto simp: lex_unsigned_def)
  from a s obtain fd s3 ex where
    f: "lex_frac (if c = 0x30 then t else dropWhile is_digit t) = Some (fd, s3)" and
    x: "lex_exp s3 = Some (ex, r)"
    by (auto simp: lex_unsigned_def Let_def split: if_splits option.splits)
  have "length (if c = 0x30 then t else dropWhile is_digit t) \<le> length t"
    by (simp add: length_dropWhile_le)
  with lex_frac_length [OF f] lex_exp_length [OF x] s show ?thesis by simp
qed

lemma next_token_length: "next_token c cs = Some (t, r) \<Longrightarrow> length r \<le> length cs"
  by (auto simp: next_token_def lex_literal_def split: if_splits
           dest!: lex_string_length lex_unsigned_length)

function tokenize :: "jsstring \<Rightarrow> token list option" where
  "tokenize [] = Some []"
| "tokenize (c # cs) =
     (if is_json_ws c then tokenize cs
      else (case next_token c cs of
              None \<Rightarrow> None
            | Some (t, r) \<Rightarrow> map_option (Cons t) (tokenize r)))"
  by pat_completeness auto
termination
  by (relation "measure length") (auto dest: next_token_length)

text \<open>
  Property order of an ordinary object: the array-index names (canonical decimal
  numerals below \<open>2^32 - 1\<close>) in ascending order, then the other names in the order of
  their creation. A name that is defined again keeps its place and takes the new value.
\<close>

definition array_index :: "jsstring \<Rightarrow> nat option" where
  "array_index k =
     (if k = [0x30] then Some 0
      else if k \<noteq> [] \<and> list_all is_digit k \<and> hd k \<noteq> 0x30 \<and> digits_val k < 4294967295
      then Some (digits_val k)
      else None)"

fun insert_index :: "nat \<Rightarrow> jsstring \<Rightarrow> json \<Rightarrow> (jsstring \<times> json) list \<Rightarrow> (jsstring \<times> json) list" where
  "insert_index i k v [] = [(k, v)]"
| "insert_index i k v ((k', v') # kvs) =
     (case array_index k' of
        Some j \<Rightarrow> if j < i then (k', v') # insert_index i k v kvs
                  else (k, v) # (k', v') # kvs
      | None \<Rightarrow> (k, v) # (k', v') # kvs)"

definition obj_put :: "(jsstring \<times> json) list \<Rightarrow> jsstring \<Rightarrow> json \<Rightarrow> (jsstring \<times> json) list" where
  "obj_put kvs k v =
     (if map_of kvs k \<noteq> None
      then map (\<lambda>(k', v'). if k' = k then (k', v) else (k', v')) kvs
      else (case array_index k of
              Some i \<Rightarrow> insert_index i k v kvs
            | None \<Rightarrow> kvs @ [(k, v)]))"

text \<open>
  An open array with its elements so far (last first), or an open object with its
  properties so far and the name whose value is being read.
\<close>

datatype frame = InArr "json list" | InObj "(jsstring \<times> json) list" jsstring

datatype pstate = Want | Have json

fun parse_tokens :: "pstate \<Rightarrow> frame list \<Rightarrow> token list \<Rightarrow> json option" where
  "parse_tokens Want st [] = None"
| "parse_tokens Want st (t # ts) =
     (case t of
        TNull \<Rightarrow> parse_tokens (Have JNull) st ts
      | TTrue \<Rightarrow> parse_tokens (Have (JBool True)) st ts
      | TFalse \<Rightarrow> parse_tokens (Have (JBool False)) st ts
      | TNum m e \<Rightarrow> parse_tokens (Have (JNum m e)) st ts
      | TStr s \<Rightarrow> parse_tokens (Have (JStr s)) st ts
      | TLBrack \<Rightarrow>
          (case ts of
             TRBrack # ts' \<Rightarrow> parse_tokens (Have (JArr [])) st ts'
           | _ \<Rightarrow> parse_tokens Want (InArr [] # st) ts)
      | TLBrace \<Rightarrow>
          (case ts of
             TRBrace # ts' \<Rightarrow> parse_tokens (Have (JObj [])) st ts'
           | TStr k # TColon # ts' \<Rightarrow> parse_tokens Want (InObj [] k # st) ts'
           | _ \<Rightarrow> None)
      | _ \<Rightarrow> None)"
| "parse_tokens (Have v) [] ts = (if ts = [] then Some v else None)"
| "parse_tokens (Have v) (InArr acc # st) ts =
     (case ts of
        TComma # ts' \<Rightarrow> parse_tokens Want (InArr (v # acc) # st) ts'
      | TRBrack # ts' \<Rightarrow> parse_tokens (Have (JArr (rev (v # acc)))) st ts'
      | _ \<Rightarrow> None)"
| "parse_tokens (Have v) (InObj kvs k # st) ts =
     (case ts of
        TComma # TStr k' # TColon # ts' \<Rightarrow> parse_tokens Want (InObj (obj_put kvs k v) k' # st) ts'
      | TRBrace # ts' \<Rightarrow> parse_tokens (Have (JObj (obj_put kvs k v))) st ts'
      | _ \<Rightarrow> None)"

definition JSON_parse :: "jsstring \<Rightarrow> json option" where
  "JSON_parse text = (case tokenize text of None \<Rightarrow> None | Some ts \<Rightarrow> parse_tokens Want [] ts)"

section \<open>String.prototype.trim\<close>

text \<open>
  \<open>trim\<close> removes \<open>WhiteSpace\<close> and \<open>LineTerminator\<close> code units of ECMA-262 from both
  ends. The set is larger than the white space of JSON: it has the vertical tab, the form
  feed, the no-break space, the byte order mark and the Unicode space separators.
\<close>

definition is_js_ws :: "jschar \<Rightarrow> bool" where
  "is_js_ws c \<longleftrightarrow>
     c = 0x09 \<or> c = 0x0A \<or> c = 0x0B \<or> c = 0x0C \<or> c = 0x0D \<or> c = 0x20 \<or> c = 0xA0
     \<or> c = 0x1680 \<or> (0x2000 \<le> c \<and> c \<le> 0x200A) \<or> c = 0x2028 \<or> c = 0x2029
     \<or> c = 0x202F \<or> c = 0x205F \<or> c = 0x3000 \<or> c = 0xFEFF"

definition trim :: "jsstring \<Rightarrow> jsstring" where
  "trim s = rev (dropWhile is_js_ws (rev (dropWhile is_js_ws s)))"

section \<open>claude-service.ts\<close>

record ClaudeResponse =
  response :: json
  sessionId :: json

record ExecOptions =
  cwd :: "jsstring option"

record ExecResult =
  stdout :: jsstring
  stderr :: jsstring

text \<open>A thrown \<open>Error\<close> with its message.\<close>

datatype js_error = Error jsstring

text \<open>
  \<open>ExecFunction\<close>: the injected function that runs a command line. Its promise resolves
  with the captured output (\<open>Inr\<close>) or rejects (\<open>Inl\<close>).
\<close>

type_synonym ExecFunction = "jsstring \<Rightarrow> ExecOptions \<Rightarrow> js_error + ExecResult"

text \<open>
  The result of \<open>parseClaudeJsonResponse\<close>. The TypeScript types say \<open>string\<close>,
  \<open>string | null\<close> and \<open>boolean\<close>, but the fields hold whatever the parsed JSON holds, so
  they are JSON values here; \<open>null\<close> is \<open>JNull\<close>.
\<close>

record ParsedResponse = ClaudeResponse +
  isError :: json

text \<open>
  Two limits of the engine are not part of ECMA-262: \<open>JSON.stringify\<close> throws a
  \<open>RangeError\<close> when the nesting of its argument exhausts the stack, and when the text
  that it writes is longer than the longest string. \<open>parseClaudeJsonResponse\<close> calls
  \<open>JSON.stringify\<close> inside its \<open>try\<close> block, in \<open>log\<close> (with an indentation of
  two) on fields of the parsed output and by itself on the whole parsed output, so that
  whether the \<open>catch\<close> branch is taken can depend on these limits. The embedding
  computes the function only where no engine reaches them: the output has at most
  \<open>2^20\<close> code units and the parsed value is nested at most 100 deep (the texts
  written for such a value have fewer than \<open>2^28\<close> code units).
\<close>

fun nesting :: "json \<Rightarrow> nat" where
  "nesting (JArr vs) = Suc (foldr max (map nesting vs) 0)"
| "nesting (JObj kvs) = Suc (foldr max (map (\<lambda>kv. nesting (snd kv)) kvs) 0)"
| "nesting _ = 0"

definition max_nesting :: nat where
  "max_nesting = 100"

definition max_output :: nat where
  "max_output = 2 ^ 20"

definition within_limits :: "jsstring \<Rightarrow> json \<Rightarrow> bool" where
  "within_limits out json \<longleftrightarrow> length out \<le> max_output \<and> nesting json \<le> max_nesting"

text \<open>
  \<open>parseClaudeJsonResponse\<close>. The \<open>try\<close> block fails when \<open>JSON.parse\<close> throws and
  also when it returns \<open>null\<close>, whose property \<open>type\<close> cannot be read; both end in the
  \<open>catch\<close> branch, which takes whatever is thrown. The result is \<open>None\<close>, outside the
  embedding, for a parsed output beyond \<open>within_limits\<close>, where a \<open>RangeError\<close> of
  \<open>JSON.stringify\<close> may end in the \<open>catch\<close> branch as well, and where the text of
  \<open>JSON.stringify(json)\<close> is needed and is outside the model (see \<open>Number_toString\<close>).
\<close>

definition parse_fallback :: "jsstring \<Rightarrow> ParsedResponse" where
  "parse_fallback out = \<lparr>response = JStr (trim out), sessionId = JNull, isError = JBool False\<rparr>"

definition parseClaudeJsonResponse :: "jsstring \<Rightarrow> ParsedResponse option" where
  "parseClaudeJsonResponse out =
     (case JSON_parse out of
        None \<Rightarrow> Some (parse_fallback out)
      | Some JNull \<Rightarrow> Some (parse_fallback out)
      | Some json \<Rightarrow>
          if \<not> within_limits out json then None
          else
          (let sid = js_or (get_prop json (ascii ''session_id'')) JNull;
               err = js_or (get_prop json (ascii ''is_error'')) (JBool False)
           in case get_prop json (ascii ''result'') of
                Some r \<Rightarrow>
                  if truthy r then Some \<lparr>response = r, sessionId = sid, isError = err\<rparr>
                  else map_option (\<lambda>t. \<lparr>response = JStr t, sessionId = sid, isError = err\<rparr>)
                         (JSON_stringify json)
              | None \<Rightarrow>
                  map_option (\<lambda>t. \<lparr>response = JStr t, sessionId = sid, isError = err\<rparr>)
                    (JSON_stringify json)))"

text \<open>
  \<open>ClaudeOptions\<close> has the fields \<open>model\<close>, \<open>systemPrompt\<close> and \<open>cwd\<close>; it is written
  as an extension of \<open>ExecOptions\<close> so that both share the one field name \<open>cwd\<close>.
  An absent optional field (\<open>undefined\<close>) is \<open>None\<close>.
\<close>

record ClaudeOptions = ExecOptions +
  model :: "jsstring option"
  systemPrompt :: "jsstring option"

text \<open>\<open>options?.field\<close> on an optional options object, and the truth value of an optional string.\<close>

definition opt_field :: "('a \<Rightarrow> 'b option) \<Rightarrow> 'a option \<Rightarrow> 'b option" where
  "opt_field f options = (case options of None \<Rightarrow> None | Some x \<Rightarrow> f x)"

definition str_truthy :: "jsstring option \<Rightarrow> bool" where
  "str_truthy x = (case x of None \<Rightarrow> False | Some s \<Rightarrow> s \<noteq> [])"

text \<open>
  What an operation does: it returns, it throws, or it reaches a point that the
  embedding does not compute (\<open>Unmodelled\<close>, from \<open>parseClaudeJsonResponse\<close>).
  Each operation also takes the list of the calls made to the execution function so far
  and returns it with its own call added. The calls to \<open>log\<close> write to the standard
  error stream and are left out.
\<close>

datatype 'a outcome = Returned 'a | Threw js_error | Unmodelled

type_synonym exec_call = "jsstring \<times> ExecOptions"

text \<open>
  The command line of \<open>executeClaude\<close>. \<open>JSON.stringify\<close> of a string is
  \<open>QuoteJSONString\<close>.
\<close>

definition executeClaude_command :: "jsstring \<Rightarrow> ClaudeOptions option \<Rightarrow> jsstring" where
  "executeClaude_command prompt options =
     (let safePrompt = QuoteJSONString prompt;
          command = ascii ''claude -p '' @ safePrompt @ ascii '' --output-format json'';
          command = (if str_truthy (opt_field model options)
                     then command @ ascii '' --model '' @ the (opt_field model options)
                     else command);
          command = (if str_truthy (opt_field systemPrompt options)
                     then command @ ascii '' --system-prompt ''
                            @ QuoteJSONString (the (opt_field systemPrompt options))
                     else command)
      in command)"

definition executeClaude ::
  "ExecFunction \<Rightarrow> jsstring \<Rightarrow> ClaudeOptions option \<Rightarrow> exec_call list
     \<Rightarrow> ClaudeResponse outcome \<times> exec_call list" where
  "executeClaude execFn prompt options calls =
     (let command = executeClaude_command prompt options;
          eo = \<lparr>cwd = opt_field cwd options\<rparr>;
          calls' = calls @ [(command, eo)]
      in case execFn command eo of
           Inl err \<Rightarrow> (Threw err, calls')
         | Inr res \<Rightarrow>
             (case parseClaudeJsonResponse (stdout res) of
                None \<Rightarrow> (Unmodelled, calls')
              | Some p \<Rightarrow>
                  (Returned \<lparr>response = response p, sessionId = sessionId p\<rparr>, calls')))"

text \<open>The command line of \<open>executeClaudeReply\<close>; \<open>sid\<close> is its parameter \<open>sessionId\<close>.\<close>

definition executeClaudeReply_command ::
  "jsstring \<Rightarrow> jsstring option \<Rightarrow> ClaudeOptions option \<Rightarrow> jsstring" where
  "executeClaudeReply_command prompt sid options =
     (let safePrompt = QuoteJSONString prompt;
          command = (if str_truthy sid
                     then ascii ''claude -r '' @ the sid @ ascii '' -p '' @ safePrompt
                            @ ascii '' --output-format json''
                     else ascii ''claude -c -p '' @ safePrompt @ ascii '' --output-format json'');
          command = (if str_truthy (opt_field model options)
                     then command @ ascii '' --model '' @ the (opt_field model options)
                     else command);
          command = (if str_truthy (opt_field systemPrompt options)
                     then command @ ascii '' --append-system-prompt ''
                            @ QuoteJSONString (the (opt_field systemPrompt options))
                     else command)
      in command)"

text \<open>\<open>newSessionId || sessionId || null\<close>.\<close>

definition finalSessionId :: "json \<Rightarrow> jsstring option \<Rightarrow> json" where
  "finalSessionId newSessionId sid =
     (if truthy newSessionId then newSessionId
      else if str_truthy sid then JStr (the sid)
      else JNull)"

definition executeClaudeReply ::
  "ExecFunction \<Rightarrow> jsstring \<Rightarrow> jsstring option \<Rightarrow> ClaudeOptions option \<Rightarrow> exec_call list
     \<Rightarrow> ClaudeResponse outcome \<times> exec_call list" where
  "executeClaudeReply execFn prompt sid options calls =
     (let command = executeClaudeReply_command prompt sid options;
          eo = \<lparr>cwd = opt_field cwd options\<rparr>;
          calls' = calls @ [(command, eo)]
      in case execFn command eo of
           Inl err \<Rightarrow> (Threw err, calls')
         | Inr res \<Rightarrow>
             (case parseClaudeJsonResponse (stdout res) of
                None \<Rightarrow> (Unmodelled, calls')
              | Some p \<Rightarrow>
                  (Returned \<lparr>response = response p,
                             sessionId = finalSessionId (sessionId p) sid\<rparr>, calls')))"

section \<open>handlers.ts\<close>

text \<open>
  \<open>ToolResult\<close>: the texts of \<open>content\<close> (every item has the type \<open>"text"\<close>), the
  optional \<open>isError\<close> and the optional \<open>_meta.sessionId\<close>, here \<open>meta\<close>. The
  arguments of the two tools are extensions of \<open>ClaudeOptions\<close> for the same reason as
  above; \<open>ClaudeReplyArgs\<close> adds \<open>sessionId\<close>.
\<close>

record ToolResult =
  content :: "json list"
  isError :: "bool option"
  meta :: "json option"

record ClaudeArgs = ClaudeOptions +
  prompt :: jsstring

record ClaudeReplyArgs = ClaudeArgs +
  sessionId :: "jsstring option"

definition handleClaude ::
  "ExecFunction \<Rightarrow> ClaudeArgs \<Rightarrow> exec_call list \<Rightarrow> ToolResult outcome \<times> exec_call list" where
  "handleClaude execFn args calls =
     (let options = \<lparr>cwd = cwd args, model = model args, systemPrompt = systemPrompt args\<rparr>
      in case executeClaude execFn (prompt args) (Some options) calls of
           (Returned r, calls') \<Rightarrow>
             (Returned \<lparr>content = [response r],
                        isError = None,
                        meta = (if truthy (ClaudeResponse.sessionId r)
                                then Some (ClaudeResponse.sessionId r) else None)\<rparr>, calls')
         | (Threw err, calls') \<Rightarrow> (Threw err, calls')
         | (Unmodelled, calls') \<Rightarrow> (Unmodelled, calls'))"

definition handleClaudeReply ::
  "ExecFunction \<Rightarrow> ClaudeReplyArgs \<Rightarrow> exec_call list \<Rightarrow> ToolResult outcome \<times> exec_call list" where
  "handleClaudeReply execFn args calls =
     (let options = \<lparr>cwd = cwd args, model = model args, systemPrompt = systemPrompt args\<rparr>
      in case executeClaudeReply execFn (prompt args) (ClaudeReplyArgs.sessionId args)
                (Some options) calls of
           (Returned r, calls') \<Rightarrow>
             (Returned \<lparr>content = [response r],
                        isError = None,
                        meta = (if truthy (ClaudeResponse.sessionId r)
                                then Some (ClaudeResponse.sessionId r) else None)\<rparr>, calls')
         | (Threw err, calls') \<Rightarrow> (Threw err, calls')
         | (Unmodelled, calls') \<Rightarrow> (Unmodelled, calls'))"

text \<open>
  \<open>handleToolCall\<close>. The arguments arrive as one untyped record and are cast to the
  argument type of the tool; the cast to \<open>ClaudeArgs\<close> forgets \<open>sessionId\<close>. Whatever
  is thrown inside the \<open>try\<close> block becomes a result with \<open>isError: true\<close>; the error for
  an unknown tool is thrown after the block.
\<close>

definition handleToolCall ::
  "ExecFunction \<Rightarrow> jsstring \<Rightarrow> ClaudeReplyArgs \<Rightarrow> exec_call list
     \<Rightarrow> ToolResult outcome \<times> exec_call list" where
  "handleToolCall execFn name args calls =
     (let tried =
            (if name = ascii ''chat''
             then Some (handleClaude execFn (ClaudeArgs.truncate args) calls)
             else if name = ascii ''chat-reply''
             then Some (handleClaudeReply execFn args calls)
             else None)
      in case tried of
           Some (Threw (Error message), calls') \<Rightarrow>
             (Returned \<lparr>content = [JStr (ascii ''Error executing claude: '' @ message)],
                        isError = Some True,
                        meta = None\<rparr>, calls')
         | Some other \<Rightarrow> other
         | None \<Rightarrow> (Threw (Error (ascii ''Unknown tool: '' @ name)), calls))"

section \<open>The command line as the shell reads it\<close>

text \<open>
  \<open>defaultExecFn\<close> gives the command line to \<open>/bin/bash\<close>. \<open>cmdline_words\<close> cuts
  a command line into its words as the shell does (Bash manual, Shell Operation and
  Quoting), for the part of the shell language that the embedding covers: words are
  separated by blanks (space and tab); a word is bare or is one double-quoted literal;
  the operator \<open><\<close> is a word of its own. A bare word is made of letters, digits
  and \<open>- _ . / :\<close> only, which mean nothing to the shell. For a quoted word the
  text between the quotes is kept as it is written; inside the quotes a backslash takes
  the next character with it, so an escaped quote does not end the word, and an
  unescaped \<open>$\<close> or backquote starts an expansion, which is not covered. A command
  line outside this part (another character in a bare word, such as an operator, a
  newline, a single quote or a pattern character; text glued to a quote; an expansion;
  an open quote) gives \<open>None\<close>.
\<close>

datatype cmd_word = Bare jsstring | Quoted jsstring | Less

datatype wstate = Gap | InBare jsstring | InQuote jsstring | InEsc jsstring | Closed jsstring

definition sh_blank :: "jschar \<Rightarrow> bool" where
  "sh_blank c \<longleftrightarrow> c = 0x20 \<or> c = 0x09"

definition sh_plain :: "jschar \<Rightarrow> bool" where
  "sh_plain c \<longleftrightarrow>
     (0x30 \<le> c \<and> c \<le> 0x39) \<or> (0x41 \<le> c \<and> c \<le> 0x5A) \<or> (0x61 \<le> c \<and> c \<le> 0x7A)
     \<or> c = 0x2D \<or> c = 0x5F \<or> c = 0x2E \<or> c = 0x2F \<or> c = 0x3A"

fun scan_words :: "wstate \<Rightarrow> jsstring \<Rightarrow> cmd_word list option" where
  "scan_words Gap [] = Some []"
| "scan_words (InBare w) [] = Some [Bare w]"
| "scan_words (InQuote q) [] = None"
| "scan_words (InEsc q) [] = None"
| "scan_words (Closed q) [] = Some [Quoted q]"
| "scan_words Gap (c # cs) =
     (if sh_blank c then scan_words Gap cs
      else if c = 0x22 then scan_words (InQuote []) cs
      else if c = 0x3C then map_option (Cons Less) (scan_words Gap cs)
      else if sh_plain c then scan_words (InBare [c]) cs
      else None)"
| "scan_words (InBare w) (c # cs) =
     (if sh_blank c then map_option (Cons (Bare w)) (scan_words Gap cs)
      else if sh_plain c then scan_words (InBare (w @ [c])) cs
      else None)"
| "scan_words (InQuote q) (c # cs) =
     (if c = 0x22 then scan_words (Closed q) cs
      else if c = 0x5C then scan_words (InEsc (q @ [c])) cs
      else if c = 0x24 \<or> c = 0x60 then None
      else scan_words (InQuote (q @ [c])) cs)"
| "scan_words (InEsc q) (c # cs) = scan_words (InQuote (q @ [c])) cs"
| "scan_words (Closed q) (c # cs) =
     (if sh_blank c then map_option (Cons (Quoted q)) (scan_words Gap cs) else None)"

definition cmdline_words :: "jsstring \<Rightarrow> cmd_word list option" where
  "cmdline_words command = scan_words Gap command"

text \<open>
  Quote removal of the shell inside double quotes (Bash manual, Double Quotes): the
  backslash is removed before \<open>$\<close>, the backquote, the double quote and the backslash,
  a backslash-newline pair disappears, and before any other character the backslash
  stays. An unescaped \<open>$\<close> or backquote starts an expansion, whose result depends on
  the environment: \<open>None\<close>.
\<close>

fun sh_dquote_value :: "jsstring \<Rightarrow> jsstring option" where
  "sh_dquote_value [] = Some []"
| "sh_dquote_value [c] = (if c = 0x24 \<or> c = 0x60 then None else Some [c])"
| "sh_dquote_value (c # e # es) =
     (if c = 0x24 \<or> c = 0x60 then None
      else if c = 0x5C then
        (if e = 0x24 \<or> e = 0x60 \<or> e = 0x22 \<or> e = 0x5C
         then map_option (Cons e) (sh_dquote_value es)
         else if e = 0x0A then sh_dquote_value es
         else map_option (\<lambda>v. c # e # v) (sh_dquote_value es))
      else map_option (Cons c) (sh_dquote_value (e # es)))"

text \<open>
  The argument that the shell passes for a word of the command line: a bare word as it
  is, a quoted word after quote removal. The operator is no argument.
\<close>

fun sh_word_value :: "cmd_word \<Rightarrow> jsstring option" where
  "sh_word_value (Bare w) = (if list_all sh_plain w then Some w else None)"
| "sh_word_value (Quoted q) = sh_dquote_value q"
| "sh_word_value Less = None"

text \<open>
  The argument list that the shell passes for a command line. The operator \<open><\<close> and
  the word after it redirect the standard input and are no arguments. The only
  redirection covered is the one from \<open>/dev/null\<close>, which exists and is empty; an
  operator with no word after it is a syntax error of the shell, and nothing is run.
\<close>

fun drop_redirections :: "cmd_word list \<Rightarrow> cmd_word list option" where
  "drop_redirections [] = Some []"
| "drop_redirections (Less # Bare w # ws) =
     (if w = ascii ''/dev/null'' then drop_redirections ws else None)"
| "drop_redirections (Less # ws) = None"
| "drop_redirections (w # ws) = map_option (Cons w) (drop_redirections ws)"

definition sh_argv :: "jsstring \<Rightarrow> jsstring list option" where
  "sh_argv command =
     (case cmdline_words command of
        None \<Rightarrow> None
      | Some ws \<Rightarrow>
          (case drop_redirections ws of
             None \<Rightarrow> None
           | Some as \<Rightarrow> sequence_opt (map sh_word_value as)))"

text \<open>
  \<open>fullCmd\<close> of \<open>defaultExecFn\<close>: the command line with the standard input taken from
  \<open>/dev/null\<close>. This is the text that \<open>/bin/bash\<close> reads.
\<close>

definition fullCmd :: "jsstring \<Rightarrow> jsstring" where
  "fullCmd cmd = cmd @ ascii '' < /dev/null''"

text \<open>
  The characters that reach the tool unchanged through \<open>JSON.stringify\<close> and the double
  quotes of the shell: no control character, no \<open>$\<close>, no backquote, no surrogate.
\<close>

definition shell_safe :: "jschar \<Rightarrow> bool" where
  "shell_safe c \<longleftrightarrow> \<not> c < 0x20 \<and> c \<noteq> 0x24 \<and> c \<noteq> 0x60 \<and> \<not> is_lead c \<and> \<not> is_trail c"

section \<open>Notions used to state the properties\<close>

text \<open>
  The structured record of the specification, \<open>{result, session_id, is_error}\<close> with two
  texts and a boolean, and the text that \<open>JSON.stringify\<close> writes for it.
\<close>

definition structured_record :: "jsstring \<Rightarrow> jsstring \<Rightarrow> bool \<Rightarrow> json" where
  "structured_record r s b =
     JObj [(ascii ''result'', JStr r), (ascii ''session_id'', JStr s),
           (ascii ''is_error'', JBool b)]"

definition structured_text :: "jsstring \<Rightarrow> jsstring \<Rightarrow> bool \<Rightarrow> jsstring" where
  "structured_text r s b =
     0x7B # QuoteJSONString (ascii ''result'') @ 0x3A # QuoteJSONString r
       @ 0x2C # QuoteJSONString (ascii ''session_id'') @ 0x3A # QuoteJSONString s
       @ 0x2C # QuoteJSONString (ascii ''is_error'') @ 0x3A
       # (if b then ascii ''true'' else ascii ''false'') @ [0x7D]"

text \<open>
  A JSON value in the form in which \<open>JSON.parse\<close> returns what \<open>JSON.stringify\<close> has
  written: a number is an integer of magnitude below \<open>2^53\<close> with the exponent zero,
  and the properties of an object are in the order in which the parser creates them,
  each name once.
\<close>

fun canonical :: "json \<Rightarrow> bool" where
  "canonical (JNum m e) = (e = 0 \<and> \<bar>m\<bar> < 2 ^ 53)"
| "canonical (JArr vs) = list_all canonical vs"
| "canonical (JObj kvs) =
     (foldl (\<lambda>acc kv. obj_put acc (fst kv) (snd kv)) [] kvs = kvs
      \<and> list_all (\<lambda>kv. canonical (snd kv)) kvs)"
| "canonical _ = True"

text \<open>
  The tokens of the text that \<open>JSON.stringify\<close> writes for a value, and the characters
  that can follow a value inside such a text.
\<close>

fun sep_tokens :: "token list list \<Rightarrow> token list" where
  "sep_tokens [] = []"
| "sep_tokens [x] = x"
| "sep_tokens (x # y # ys) = x @ TComma # sep_tokens (y # ys)"

fun tokens_of :: "json \<Rightarrow> token list" where
  "tokens_of JNull = [TNull]"
| "tokens_of (JBool b) = [if b then TTrue else TFalse]"
| "tokens_of (JNum m e) = [TNum m e]"
| "tokens_of (JStr s) = [TStr s]"
| "tokens_of (JArr vs) = TLBrack # sep_tokens (map tokens_of vs) @ [TRBrack]"
| "tokens_of (JObj kvs) =
     TLBrace # sep_tokens (map (\<lambda>kv. TStr (fst kv) # TColon # tokens_of (snd kv)) kvs)
       @ [TRBrace]"

definition follow_ok :: "jsstring \<Rightarrow> bool" where
  "follow_ok rest = (case rest of [] \<Rightarrow> True | c # _ \<Rightarrow> c = 0x2C \<or> c = 0x5D \<or> c = 0x7D)"



text \<open>
  A text with no \<open>$\<close> and no backquote: \<open>JSON.stringify\<close> leaves both as they are,
  and inside double quotes they start an expansion of the shell.
\<close>

definition expansion_free :: "jsstring \<Rightarrow> bool" where
  "expansion_free s \<longleftrightarrow> list_all (\<lambda>c. c \<noteq> 0x24 \<and> c \<noteq> 0x60) s"


text \<open>
  The command line that a tool call gives to the execution function, and the options
  that go with it.
\<close>

definition tool_options :: "ClaudeReplyArgs \<Rightarrow> ClaudeOptions" where
  "tool_options args = \<lparr>cwd = cwd args, model = model args, systemPrompt = systemPrompt args\<rparr>"

definition tool_command :: "jsstring \<Rightarrow> ClaudeReplyArgs \<Rightarrow> jsstring" where
  "tool_command name args =
     (if name = ascii ''chat''
      then executeClaude_command (prompt args) (Some (tool_options args))
      else executeClaudeReply_command (prompt args) (ClaudeReplyArgs.sessionId args)
             (Some (tool_options args)))"

section \<open>Sample inputs\<close>

text \<open>
  Execution functions as the tests of the repository inject them: one that returns a
  fixed output and one that throws.
\<close>

definition exec_returns :: "jsstring \<Rightarrow> ExecFunction" where
  "exec_returns out command eo = Inr \<lparr>stdout = out, stderr = []\<rparr>"

definition exec_throws :: "jsstring \<Rightarrow> ExecFunction" where
  "exec_throws message command eo = Inl (Error message)"

text \<open>The output \<open>{"result":"OK"}\<close>, and the same output after a byte order mark.\<close>

definition out_ok :: jsstring where
  "out_ok = 0x7B # QuoteJSONString (ascii ''result'') @ 0x3A # QuoteJSONString (ascii ''OK'')
              @ [0x7D]"

definition bom_out :: jsstring where
  "bom_out = 0xFEFF # out_ok"




text \<open>
  The record of the first test of \<open>parseClaudeJsonResponse\<close>, with the fields
  \<open>type\<close>, \<open>subtype\<close>, \<open>is_error\<close>, \<open>result\<close> and \<open>session_id\<close>.
\<close>

definition sample_props :: "(jsstring \<times> json) list" where
  "sample_props =
     [(ascii ''type'', JStr (ascii ''result'')), (ascii ''subtype'', JStr (ascii ''success'')),
      (ascii ''is_error'', JBool False),
      (ascii ''result'', JStr (ascii ''Hello, how can I help you?'')),
      (ascii ''session_id'', JStr (ascii ''test-session-id''))]"

text \<open>The arguments \<open>{prompt: "Hello"}\<close>, and options with a model and a system prompt.\<close>

definition hello_args :: ClaudeReplyArgs where
  "hello_args = \<lparr>cwd = None, model = None, systemPrompt = None, prompt = ascii ''Hello'',
                  ClaudeReplyArgs.sessionId = None\<rparr>"


section \<open>Evaluation rules\<close>

lemmas lexer_defs =
  ascii_def is_json_ws_def next_token_def is_digit_def lex_unsigned_def lex_frac_def
  lex_exp_def lex_exp_digits_def lex_literal_def digits_val_def digit_val_def Let_def
  hex4_def hex_val_def unescape_def

lemmas parser_defs = JSON_parse_def obj_put_def array_index_def

lemmas quote_defs =
  QuoteJSONString_def quote_unit_def unicode_escape_def hex_digit_def is_lead_def is_trail_def

lemmas shell_defs =
  sh_argv_def cmdline_words_def sh_plain_def sh_blank_def fullCmd_def executeClaude_command_def
  executeClaudeReply_command_def opt_field_def str_truthy_def

section \<open>Quoting and reading back a string\<close>

lemma nat_lt_16_cases:
  "k < 16 \<Longrightarrow> k = 0 \<or> k = 1 \<or> k = 2 \<or> k = 3 \<or> k = 4 \<or> k = 5 \<or> k = 6 \<or> k = 7
     \<or> k = 8 \<or> k = 9 \<or> k = 10 \<or> k = 11 \<or> k = 12 \<or> k = 13 \<or> k = 14 \<or> k = (15::nat)"
  by arith

lemma hex_val_hex_digit: "k < 16 \<Longrightarrow> hex_val (hex_digit k) = Some k"
  by (drule nat_lt_16_cases) (elim disjE; simp add: hex_val_def hex_digit_def)

lemma hex_digit_plain:
  "k < 16 \<Longrightarrow> hex_digit k \<noteq> 0x22 \<and> hex_digit k \<noteq> 0x5C \<and> hex_digit k \<noteq> 0x24
     \<and> hex_digit k \<noteq> 0x60"
  by (drule nat_lt_16_cases) (elim disjE; simp add: hex_digit_def)

lemma hex4_arith:
  "((n div 4096 * 16 + n div 256 mod 16) * 16 + n div 16 mod 16) * 16 + n mod 16 = (n::nat)"
proof -
  have d2: "n div 256 = n div 16 div 16" and d3: "n div 4096 = n div 256 div 16"
    by (simp_all add: div_mult2_eq [symmetric])
  have q1: "n div 16 * 16 + n mod 16 = n"
    by (rule div_mult_mod_eq)
  have q2: "n div 256 * 16 + n div 16 mod 16 = n div 16"
    unfolding d2 by (rule div_mult_mod_eq)
  have q3: "n div 4096 * 16 + n div 256 mod 16 = n div 256"
    unfolding d3 by (rule div_mult_mod_eq)
  show ?thesis
    by (simp only: q3 q2 q1)
qed

lemma unat_div_4096: "unat (c :: jschar) div 4096 < 16"
proof -
  have "unat c < 2 ^ LENGTH(16)"
    by (rule unsigned_less)
  then show ?thesis by simp
qed

lemma hex4_unicode_escape:
  assumes a: "unicode_escape c = [0x5C, 0x75, h1, h2, h3, h4]"
  shows "hex4 h1 h2 h3 h4 = Some c"
proof -
  define n where "n = unat c"
  from a have h: "h1 = hex_digit (n div 4096)" "h2 = hex_digit (n div 256 mod 16)"
    "h3 = hex_digit (n div 16 mod 16)" "h4 = hex_digit (n mod 16)"
    by (simp_all add: unicode_escape_def Let_def n_def)
  have b: "n div 4096 < 16"
    unfolding n_def by (rule unat_div_4096)
  have v: "hex_val h1 = Some (n div 4096)" "hex_val h2 = Some (n div 256 mod 16)"
    "hex_val h3 = Some (n div 16 mod 16)" "hex_val h4 = Some (n mod 16)"
    by (simp_all add: h hex_val_hex_digit b)
  have "hex4 h1 h2 h3 h4 =
          Some (of_nat (((n div 4096 * 16 + n div 256 mod 16) * 16 + n div 16 mod 16) * 16
                  + n mod 16))"
    by (simp add: hex4_def v del: of_nat_add of_nat_mult)
  then have "hex4 h1 h2 h3 h4 = Some (of_nat n)"
    by (simp only: hex4_arith)
  then show ?thesis by (simp add: n_def)
qed

lemma surrogate_plain:
  "is_lead c \<or> is_trail c \<Longrightarrow> c \<noteq> 0x22 \<and> c \<noteq> 0x5C \<and> \<not> c < 0x20"
  by (auto simp: is_lead_def is_trail_def word_le_nat_alt word_less_nat_alt)

lemma quote_unit_cases:
  obtains (esc) "c = 0x08 \<or> c = 0x09 \<or> c = 0x0A \<or> c = 0x0C \<or> c = 0x0D \<or> c = 0x22 \<or> c = 0x5C"
  | (uni) "quote_unit c = unicode_escape c"
  | (raw) "quote_unit c = [c]" "c \<noteq> 0x22" "c \<noteq> 0x5C" "\<not> c < 0x20"
  by (cases "c = 0x08 \<or> c = 0x09 \<or> c = 0x0A \<or> c = 0x0C \<or> c = 0x0D \<or> c = 0x22 \<or> c = 0x5C";
      cases "c < 0x20 \<or> is_lead c \<or> is_trail c") (simp_all add: quote_unit_def)

lemma lex_string_raw:
  "c \<noteq> 0x22 \<Longrightarrow> c \<noteq> 0x5C \<Longrightarrow> \<not> c < 0x20 \<Longrightarrow>
   lex_string (c # rest) = map_option (\<lambda>(s, r). (c # s, r)) (lex_string rest)"
  by simp

lemma lex_string_unit:
  "lex_string (quote_unit c @ rest) = map_option (\<lambda>(s, r). (c # s, r)) (lex_string rest)"
proof (cases c rule: quote_unit_cases)
  case esc
  then show ?thesis
    by (elim disjE) (simp_all add: quote_unit_def unescape_def)
next
  case uni
  obtain h1 h2 h3 h4 where u: "unicode_escape c = [0x5C, 0x75, h1, h2, h3, h4]"
    by (simp add: unicode_escape_def Let_def)
  from hex4_unicode_escape [OF u] show ?thesis
    by (simp add: uni u)
next
  case raw
  then show ?thesis by simp
qed

lemma lex_string_pair:
  assumes "is_lead c" and "is_trail d"
  shows "lex_string (c # d # rest) = map_option (\<lambda>(s, r). (c # d # s, r)) (lex_string rest)"
proof -
  from assms have c: "c \<noteq> 0x22" "c \<noteq> 0x5C" "\<not> c < 0x20"
    and d: "d \<noteq> 0x22" "d \<noteq> 0x5C" "\<not> d < 0x20"
    using surrogate_plain [of c] surrogate_plain [of d] by simp_all
  have "lex_string (c # d # rest) =
      map_option (\<lambda>(s, r). (c # s, r)) (map_option (\<lambda>(s, r). (d # s, r)) (lex_string rest))"
    by (simp only: lex_string_raw [OF c] lex_string_raw [OF d])
  then show ?thesis
    by (cases "lex_string rest") auto
qed

lemma lex_string_quote_units:
  "lex_string (quote_units s @ 0x22 # rest) = Some (s, rest)"
proof (induction s rule: quote_units.induct)
  case 1
  then show ?case by simp
next
  case (2 c)
  then show ?case by (simp add: lex_string_unit)
next
  case (3 c d cs)
  show ?case
  proof (cases "is_lead c \<and> is_trail d")
    case True
    with 3 have "lex_string (quote_units cs @ 0x22 # rest) = Some (cs, rest)" by simp
    with True show ?thesis
      by (simp add: lex_string_pair del: lex_string.simps)
  next
    case False
    with 3 have "lex_string (quote_units (d # cs) @ 0x22 # rest) = Some (d # cs, rest)"
      by simp
    moreover from False have "quote_units (c # d # cs) = quote_unit c @ quote_units (d # cs)"
      by auto
    ultimately show ?thesis
      by (simp add: lex_string_unit del: lex_string.simps quote_units.simps)
  qed
qed

lemma tokenize_quoted:
  "tokenize (QuoteJSONString s @ rest) = map_option (Cons (TStr s)) (tokenize rest)"
  by (simp add: QuoteJSONString_def is_json_ws_def next_token_def lex_string_quote_units)

lemma stringify_structured:
  "JSON_stringify (structured_record r s b) = Some (structured_text r s b)"
  by (simp add: structured_record_def structured_text_def)

lemma tokenize_structured:
  "tokenize (structured_text r s b) =
     Some [TLBrace, TStr (ascii ''result''), TColon, TStr r, TComma,
           TStr (ascii ''session_id''), TColon, TStr s, TComma,
           TStr (ascii ''is_error''), TColon, (if b then TTrue else TFalse), TRBrace]"
  by (simp add: structured_text_def tokenize_quoted is_json_ws_def next_token_def
        lex_literal_def is_digit_def)
     (simp add: ascii_def is_json_ws_def next_token_def lex_literal_def is_digit_def)

lemma parse_structured:
  "JSON_parse (structured_text r s b) = Some (structured_record r s b)"
  by (simp add: JSON_parse_def tokenize_structured structured_record_def obj_put_def)
     (simp add: ascii_def array_index_def is_digit_def)

section \<open>Reading back a serialized value\<close>

lemma nat_lt_10_cases:
  "d < 10 \<Longrightarrow> d = 0 \<or> d = 1 \<or> d = 2 \<or> d = 3 \<or> d = 4 \<or> d = 5 \<or> d = 6 \<or> d = 7
     \<or> d = 8 \<or> d = (9::nat)"
  by arith

lemma digit_char:
  "d < 10 \<Longrightarrow> is_digit (of_nat (48 + d)) \<and> digit_val (of_nat (48 + d)) = d
     \<and> ((of_nat (48 + d) :: jschar) = 0x30) = (d = 0)"
  by (drule nat_lt_10_cases) (elim disjE; simp add: is_digit_def digit_val_def)

lemma nat_digits_digits: "list_all is_digit (nat_digits n)"
proof (induction n rule: nat_digits.induct)
  case (1 n)
  show ?case
  proof (cases "n < 10")
    case True
    then show ?thesis
      using digit_char [of n] by (simp add: nat_digits.simps [of n])
  next
    case False
    with 1 show ?thesis
      using digit_char [of "n mod 10"] by (simp add: nat_digits.simps [of n])
  qed
qed

lemma nat_digits_nonempty: "nat_digits n \<noteq> []"
  by (simp add: nat_digits.simps [of n])

lemma digits_val_snoc: "digits_val (ds @ [d]) = 10 * digits_val ds + digit_val d"
  by (simp add: digits_val_def)

lemma digits_val_nat_digits: "digits_val (nat_digits n) = n"
proof (induction n rule: nat_digits.induct)
  case (1 n)
  show ?case
  proof (cases "n < 10")
    case True
    then show ?thesis
      using digit_char [of n] by (simp add: nat_digits.simps [of n] digits_val_def)
  next
    case False
    with 1 have "digits_val (nat_digits (n div 10)) = n div 10" by simp
    with False show ?thesis
      using digit_char [of "n mod 10"]
      by (simp add: nat_digits.simps [of n] digits_val_snoc)
  qed
qed

lemma hd_nat_digits: "(hd (nat_digits n) = 0x30) = (n = 0)"
proof (induction n rule: nat_digits.induct)
  case (1 n)
  show ?case
  proof (cases "n < 10")
    case True
    then show ?thesis
      using digit_char [of n] by (simp add: nat_digits.simps [of n])
  next
    case False
    then have "n div 10 \<noteq> 0" by simp
    with 1 False have "hd (nat_digits (n div 10)) \<noteq> 0x30" by simp
    with False show ?thesis
      by (simp add: nat_digits.simps [of n] nat_digits_nonempty)
  qed
qed

lemma follow_not_digit:
  "follow_ok rest \<Longrightarrow> rest = [] \<or> \<not> is_digit (hd rest)"
  by (auto simp: follow_ok_def is_digit_def split: list.splits)

lemma takeWhile_digits:
  assumes "list_all is_digit ds" and "follow_ok rest"
  shows "takeWhile is_digit (ds @ rest) = ds" and "dropWhile is_digit (ds @ rest) = rest"
proof -
  from assms(2) have r: "rest = [] \<or> \<not> is_digit (hd rest)"
    by (rule follow_not_digit)
  from assms(1) r show "takeWhile is_digit (ds @ rest) = ds"
    by (induction ds) (auto simp: takeWhile_eq_Nil_iff)
  from assms(1) r show "dropWhile is_digit (ds @ rest) = rest"
    by (induction ds) (auto simp: dropWhile_eq_self_iff)
qed

lemma lex_frac_follow: "follow_ok rest \<Longrightarrow> lex_frac rest = Some ([], rest)"
  by (auto simp: lex_frac_def follow_ok_def split: list.splits)

lemma lex_exp_follow: "follow_ok rest \<Longrightarrow> lex_exp rest = Some (0, rest)"
  by (auto simp: lex_exp_def follow_ok_def split: list.splits)

lemma lex_unsigned_nat_digits:
  assumes f: "follow_ok rest"
  shows "lex_unsigned (nat_digits n @ rest) = Some (n, 0, rest)"
proof -
  obtain c ds where d: "nat_digits n = c # ds"
    using nat_digits_nonempty [of n] by (cases "nat_digits n") auto
  from nat_digits_digits [of n] d have c: "is_digit c" and ds: "list_all is_digit ds"
    by simp_all
  from hd_nat_digits [of n] d have z: "(c = 0x30) = (n = 0)" by simp
  have v: "digits_val (c # ds) = n"
    using digits_val_nat_digits [of n] d by simp
  show ?thesis
  proof (cases "c = 0x30")
    case True
    with z have "n = 0" by simp
    then have "nat_digits n = [0x30]"
      by (simp add: nat_digits.simps [of 0])
    with d True have "ds = []" by simp
    with True c v f show ?thesis
      by (simp add: d lex_unsigned_def lex_frac_follow lex_exp_follow)
  next
    case False
    with c v f ds show ?thesis
      by (simp add: d lex_unsigned_def Let_def takeWhile_digits lex_frac_follow lex_exp_follow)
  qed
qed

lemma digit_not_punct:
  "is_digit c \<Longrightarrow> c \<noteq> 0x7B \<and> c \<noteq> 0x7D \<and> c \<noteq> 0x5B \<and> c \<noteq> 0x5D \<and> c \<noteq> 0x3A \<and> c \<noteq> 0x2C
     \<and> c \<noteq> 0x22 \<and> c \<noteq> 0x2D \<and> \<not> is_json_ws c"
  by (auto simp: is_digit_def is_json_ws_def word_le_nat_alt)

lemma tokenize_number:
  assumes f: "follow_ok rest" and t: "Number_toString m 0 = Some t"
  shows "tokenize (t @ rest) = map_option (Cons (TNum m 0)) (tokenize rest)"
proof -
  define n where "n = nat \<bar>m\<bar>"
  from t have t': "t = (if m < 0 then [0x2D] else []) @ nat_digits n"
    by (auto simp: Number_toString_def n_def split: if_splits)
  obtain c ds where d: "nat_digits n = c # ds"
    using nat_digits_nonempty [of n] by (cases "nat_digits n") auto
  from nat_digits_digits [of n] d have c: "is_digit c" by simp
  show ?thesis
  proof (cases "m < 0")
    case True
    then have "- int n = m" by (simp add: n_def)
    with True show ?thesis
      using lex_unsigned_nat_digits [OF f, of n]
      by (simp add: t' next_token_def is_json_ws_def)
  next
    case False
    then have "int n = m" by (simp add: n_def)
    with False show ?thesis
      using lex_unsigned_nat_digits [OF f, of n] digit_not_punct [OF c] c
      by (simp add: t' d next_token_def)
  qed
qed

lemma follow_ok_simps [simp]:
  "follow_ok []" "follow_ok (0x2C # r)" "follow_ok (0x5D # r)" "follow_ok (0x7D # r)"
  by (simp_all add: follow_ok_def)

lemma tokenize_punct:
  "tokenize (0x2C # r) = map_option (Cons TComma) (tokenize r)"
  "tokenize (0x5D # r) = map_option (Cons TRBrack) (tokenize r)"
  "tokenize (0x7D # r) = map_option (Cons TRBrace) (tokenize r)"
  "tokenize (0x5B # r) = map_option (Cons TLBrack) (tokenize r)"
  "tokenize (0x7B # r) = map_option (Cons TLBrace) (tokenize r)"
  "tokenize (0x3A # r) = map_option (Cons TColon) (tokenize r)"
  by (simp_all add: is_json_ws_def next_token_def)

lemma tokenize_literals:
  "tokenize (ascii ''null'' @ r) = map_option (Cons TNull) (tokenize r)"
  "tokenize (ascii ''true'' @ r) = map_option (Cons TTrue) (tokenize r)"
  "tokenize (ascii ''false'' @ r) = map_option (Cons TFalse) (tokenize r)"
  by (simp_all add: ascii_def is_json_ws_def next_token_def lex_literal_def is_digit_def)

lemma sequence_opt_Cons:
  "sequence_opt (x # xs) = Some ts \<longleftrightarrow>
     (\<exists>t ts'. x = Some t \<and> sequence_opt xs = Some ts' \<and> ts = t # ts')"
  by (cases x) auto

lemma tokenize_elements:
  assumes ih: "\<And>v t rest. v \<in> set vs \<Longrightarrow> JSON_stringify v = Some t \<Longrightarrow> canonical v \<Longrightarrow>
            follow_ok rest \<Longrightarrow> tokenize (t @ rest) = map_option ((@) (tokens_of v)) (tokenize rest)"
    and "sequence_opt (map JSON_stringify vs) = Some ts"
    and "list_all canonical vs"
    and "follow_ok rest"
  shows "tokenize (join_comma ts @ rest) =
           map_option ((@) (sep_tokens (map tokens_of vs))) (tokenize rest)"
  using assms
proof (induction vs arbitrary: ts rule: induct_list012)
  case 1
  then show ?case by (cases "tokenize rest") simp_all
next
  case (2 x)
  then show ?case
    by (auto simp: sequence_opt_Cons simp del: JSON_stringify.simps)
next
  case (3 x y zs)
  from "3.prems"(2) obtain t ts' where t: "JSON_stringify x = Some t"
    and ts': "sequence_opt (map JSON_stringify (y # zs)) = Some ts'" and ts: "ts = t # ts'"
    by (auto simp: sequence_opt_Cons simp del: JSON_stringify.simps)
  from ts' obtain u us where us: "ts' = u # us"
    by (auto simp: sequence_opt_Cons simp del: JSON_stringify.simps)
  have ih': "tokenize (join_comma ts' @ rest) =
           map_option ((@) (sep_tokens (map tokens_of (y # zs)))) (tokenize rest)"
    using "3.prems" ts' by (intro "3.IH"(2)) (simp_all del: JSON_stringify.simps)
  have "tokenize (t @ 0x2C # join_comma ts' @ rest) =
          map_option ((@) (tokens_of x)) (tokenize (0x2C # join_comma ts' @ rest))"
    using "3.prems" t by (intro "3.prems"(1)) simp_all
  with ih' show ?case
    by (cases "tokenize rest")
       (simp_all add: ts us tokenize_punct del: tokenize.simps)
qed


lemma tokenize_members:
  assumes ih: "\<And>kv t rest. kv \<in> set kvs \<Longrightarrow> JSON_stringify (snd kv) = Some t \<Longrightarrow>
            canonical (snd kv) \<Longrightarrow> follow_ok rest \<Longrightarrow>
            tokenize (t @ rest) = map_option ((@) (tokens_of (snd kv))) (tokenize rest)"
    and "sequence_opt (map (\<lambda>(k, v). map_option (\<lambda>t. QuoteJSONString k @ 0x3A # t)
                                          (JSON_stringify v)) kvs) = Some ts"
    and "list_all (\<lambda>kv. canonical (snd kv)) kvs"
    and "follow_ok rest"
  shows "tokenize (join_comma ts @ rest) =
           map_option ((@) (sep_tokens (map (\<lambda>kv. TStr (fst kv) # TColon # tokens_of (snd kv)) kvs)))
             (tokenize rest)"
  using assms
proof (induction kvs arbitrary: ts rule: induct_list012)
  case 1
  then show ?case by (cases "tokenize rest") simp_all
next
  case (2 x)
  obtain k v where x: "x = (k, v)" by (cases x)
  from "2.prems"(2) obtain t where t: "JSON_stringify v = Some t"
    and ts: "ts = [QuoteJSONString k @ 0x3A # t]"
    by (auto simp: x sequence_opt_Cons simp del: JSON_stringify.simps)
  have "tokenize (t @ rest) = map_option ((@) (tokens_of v)) (tokenize rest)"
    using "2.prems" t by (intro "2.prems"(1) [of x, unfolded x snd_conv]) (simp_all add: x)
  then show ?case
    by (cases "tokenize rest")
       (simp_all add: ts x tokenize_quoted tokenize_punct del: tokenize.simps)
next
  case (3 x y zs)
  obtain k v where x: "x = (k, v)" by (cases x)
  from "3.prems"(2) obtain t ts' where t: "JSON_stringify v = Some t"
    and ts': "sequence_opt (map (\<lambda>(k, v). map_option (\<lambda>t. QuoteJSONString k @ 0x3A # t)
                                          (JSON_stringify v)) (y # zs)) = Some ts'"
    and ts: "ts = (QuoteJSONString k @ 0x3A # t) # ts'"
    by (auto simp: x sequence_opt_Cons simp del: JSON_stringify.simps)
  from ts' obtain u us where us: "ts' = u # us"
    by (auto simp: sequence_opt_Cons simp del: JSON_stringify.simps)
  have ih': "tokenize (join_comma ts' @ rest) =
           map_option ((@) (sep_tokens (map (\<lambda>kv. TStr (fst kv) # TColon # tokens_of (snd kv))
                                          (y # zs)))) (tokenize rest)"
    using "3.prems" ts' by (intro "3.IH"(2)) (simp_all del: JSON_stringify.simps)
  have "tokenize (t @ 0x2C # join_comma ts' @ rest) =
          map_option ((@) (tokens_of v)) (tokenize (0x2C # join_comma ts' @ rest))"
    using "3.prems" t by (intro "3.prems"(1) [of x, unfolded x snd_conv]) (simp_all add: x)
  with ih' show ?case
    by (cases "tokenize rest")
       (simp_all add: ts us x tokenize_quoted tokenize_punct del: tokenize.simps)
qed

lemma tokenize_stringify:
  "JSON_stringify v = Some t \<Longrightarrow> canonical v \<Longrightarrow> follow_ok rest \<Longrightarrow>
   tokenize (t @ rest) = map_option ((@) (tokens_of v)) (tokenize rest)"
proof (induction v arbitrary: t rest)
  case JNull
  then show ?case
    by (cases "tokenize rest") (auto simp: tokenize_literals simp del: tokenize.simps)
next
  case (JBool b)
  then show ?case
    by (cases "tokenize rest"; cases b) (auto simp: tokenize_literals simp del: tokenize.simps)
next
  case (JNum m e)
  then show ?case
    by (cases "tokenize rest") (auto simp: tokenize_number simp del: tokenize.simps)
next
  case (JStr s)
  then show ?case
    by (cases "tokenize rest") (auto simp: tokenize_quoted simp del: tokenize.simps)
next
  case (JArr vs)
  from JArr.prems(1) obtain ts where ts: "sequence_opt (map JSON_stringify vs) = Some ts"
    and t: "t = 0x5B # join_comma ts @ [0x5D]"
    by auto
  have "tokenize (join_comma ts @ 0x5D # rest) =
           map_option ((@) (sep_tokens (map tokens_of vs))) (tokenize (0x5D # rest))"
    using JArr.prems ts by (intro tokenize_elements JArr.IH) simp_all
  then show ?case
    by (cases "tokenize rest") (simp_all add: t tokenize_punct del: tokenize.simps)
next
  case (JObj kvs)
  from JObj.prems(1) obtain ts where
    ts: "sequence_opt (map (\<lambda>(k, v). map_option (\<lambda>t. QuoteJSONString k @ 0x3A # t)
                                          (JSON_stringify v)) kvs) = Some ts"
    and t: "t = 0x7B # join_comma ts @ [0x7D]"
    by auto
  have "tokenize (join_comma ts @ 0x7D # rest) =
           map_option ((@) (sep_tokens (map (\<lambda>kv. TStr (fst kv) # TColon # tokens_of (snd kv)) kvs)))
             (tokenize (0x7D # rest))"
    using JObj.prems ts
  proof (intro tokenize_members)
    fix kv t' rest'
    assume "kv \<in> set kvs" "JSON_stringify (snd kv) = Some t'" "canonical (snd kv)" "follow_ok rest'"
    then show "tokenize (t' @ rest') = map_option ((@) (tokens_of (snd kv))) (tokenize rest')"
      by (intro JObj.IH [of kv "snd kv"]) (cases kv; simp)+
  qed simp_all
  then show ?case
    by (cases "tokenize rest") (simp_all add: t tokenize_punct del: tokenize.simps)
qed

lemma tokens_of_head: "\<exists>t r. tokens_of v = t # r \<and> t \<noteq> TRBrack"
  by (cases v) simp_all

lemma open_array:
  assumes "t \<noteq> TRBrack"
  shows "parse_tokens Want st (TLBrack # t # r) = parse_tokens Want (InArr [] # st) (t # r)"
  using assms by (cases t) simp_all

lemma parse_elements:
  assumes "\<And>v st ts. v \<in> set vs \<Longrightarrow>
             parse_tokens Want st (tokens_of v @ ts) = parse_tokens (Have v) st ts"
    and "vs \<noteq> []"
  shows "parse_tokens Want (InArr acc # st) (sep_tokens (map tokens_of vs) @ TRBrack # ts) =
           parse_tokens (Have (JArr (rev acc @ vs))) st ts"
  using assms
proof (induction vs arbitrary: acc rule: induct_list012)
  case 1
  then show ?case by simp
next
  case (2 x)
  then show ?case by simp
next
  case (3 x y zs)
  have "parse_tokens Want (InArr (x # acc) # st)
          (sep_tokens (map tokens_of (y # zs)) @ TRBrack # ts) =
        parse_tokens (Have (JArr (rev (x # acc) @ y # zs))) st ts"
    using "3.prems" by (intro "3.IH"(2)) simp_all
  moreover have "parse_tokens Want (InArr acc # st)
      (tokens_of x @ TComma # sep_tokens (map tokens_of (y # zs)) @ TRBrack # ts) =
    parse_tokens (Have x) (InArr acc # st)
      (TComma # sep_tokens (map tokens_of (y # zs)) @ TRBrack # ts)"
    using "3.prems" by simp
  ultimately show ?case by simp
qed

lemma parse_members:
  assumes "\<And>kv st ts. kv \<in> set kvs \<Longrightarrow>
             parse_tokens Want st (tokens_of (snd kv) @ ts) = parse_tokens (Have (snd kv)) st ts"
  shows "parse_tokens (Have v) (InObj acc k # st)
           (concat (map (\<lambda>kv. TComma # TStr (fst kv) # TColon # tokens_of (snd kv)) kvs)
              @ TRBrace # ts) =
         parse_tokens (Have (JObj (foldl (\<lambda>acc kv. obj_put acc (fst kv) (snd kv))
                                     (obj_put acc k v) kvs))) st ts"
  using assms
proof (induction kvs arbitrary: acc k v)
  case Nil
  then show ?case by simp
next
  case (Cons kv kvs)
  have "parse_tokens Want (InObj (obj_put acc k v) (fst kv) # st)
          (tokens_of (snd kv) @
             concat (map (\<lambda>kv. TComma # TStr (fst kv) # TColon # tokens_of (snd kv)) kvs)
               @ TRBrace # ts) =
        parse_tokens (Have (snd kv)) (InObj (obj_put acc k v) (fst kv) # st)
          (concat (map (\<lambda>kv. TComma # TStr (fst kv) # TColon # tokens_of (snd kv)) kvs)
               @ TRBrace # ts)"
    using Cons.prems by simp
  moreover have "parse_tokens (Have (snd kv)) (InObj (obj_put acc k v) (fst kv) # st)
          (concat (map (\<lambda>kv. TComma # TStr (fst kv) # TColon # tokens_of (snd kv)) kvs)
               @ TRBrace # ts) =
        parse_tokens (Have (JObj (foldl (\<lambda>acc kv. obj_put acc (fst kv) (snd kv))
                                     (obj_put (obj_put acc k v) (fst kv) (snd kv)) kvs))) st ts"
    using Cons.prems by (intro Cons.IH) simp_all
  ultimately show ?case by simp
qed

lemma sep_members:
  "sep_tokens ((TStr (fst kv) # TColon # tokens_of (snd kv))
                 # map (\<lambda>kv. TStr (fst kv) # TColon # tokens_of (snd kv)) kvs) =
     TStr (fst kv) # TColon # tokens_of (snd kv)
       @ concat (map (\<lambda>kv. TComma # TStr (fst kv) # TColon # tokens_of (snd kv)) kvs)"
  by (induction kvs arbitrary: kv) simp_all

lemma parse_tokens_of:
  "canonical v \<Longrightarrow> parse_tokens Want st (tokens_of v @ ts) = parse_tokens (Have v) st ts"
proof (induction v arbitrary: st ts)
  case (JArr vs)
  show ?case
  proof (cases vs)
    case Nil
    then show ?thesis by simp
  next
    case (Cons x xs)
    obtain t r where h: "tokens_of x = t # r" "t \<noteq> TRBrack"
      using tokens_of_head [of x] by blast
    have e: "\<And>v st ts. v \<in> set vs \<Longrightarrow>
               parse_tokens Want st (tokens_of v @ ts) = parse_tokens (Have v) st ts"
      using JArr by (simp add: list_all_iff)
    obtain r' where s: "sep_tokens (map tokens_of vs) = t # r'"
      using h Cons by (cases xs) simp_all
    have "parse_tokens Want st (TLBrack # sep_tokens (map tokens_of vs) @ TRBrack # ts) =
          parse_tokens Want (InArr [] # st) (sep_tokens (map tokens_of vs) @ TRBrack # ts)"
      using open_array [OF h(2)] by (simp add: s)
    also have "\<dots> = parse_tokens (Have (JArr (rev [] @ vs))) st ts"
      using e Cons by (intro parse_elements) simp_all
    finally show ?thesis by simp
  qed
next
  case (JObj kvs)
  show ?case
  proof (cases kvs)
    case Nil
    then show ?thesis by simp
  next
    case (Cons kv kvs')
    have e: "\<And>kv st ts. kv \<in> set kvs \<Longrightarrow>
             parse_tokens Want st (tokens_of (snd kv) @ ts) = parse_tokens (Have (snd kv)) st ts"
    proof -
      fix kv st ts
      assume m: "kv \<in> set kvs"
      with JObj.prems have "canonical (snd kv)" by (simp add: list_all_iff)
      with m show "parse_tokens Want st (tokens_of (snd kv) @ ts) = parse_tokens (Have (snd kv)) st ts"
        by (intro JObj.IH [of kv "snd kv"]) (cases kv; simp)+
    qed
    from JObj.prems have f: "foldl (\<lambda>acc kv. obj_put acc (fst kv) (snd kv)) [] kvs = kvs"
      by simp
    have "parse_tokens Want st (tokens_of (JObj kvs) @ ts) =
          parse_tokens Want (InObj [] (fst kv) # st)
            (tokens_of (snd kv)
               @ concat (map (\<lambda>kv. TComma # TStr (fst kv) # TColon # tokens_of (snd kv)) kvs')
               @ TRBrace # ts)"
      by (simp add: Cons sep_members del: sep_tokens.simps)
    also have "\<dots> = parse_tokens (Have (snd kv)) (InObj [] (fst kv) # st)
            (concat (map (\<lambda>kv. TComma # TStr (fst kv) # TColon # tokens_of (snd kv)) kvs')
               @ TRBrace # ts)"
      using e [of kv] Cons by simp
    also have "\<dots> = parse_tokens (Have (JObj (foldl (\<lambda>acc kv. obj_put acc (fst kv) (snd kv))
                                     (obj_put [] (fst kv) (snd kv)) kvs'))) st ts"
      using e Cons by (intro parse_members) simp_all
    also have "\<dots> = parse_tokens (Have (JObj kvs)) st ts"
      using f by (simp add: Cons)
    finally show ?thesis .
  qed
qed simp_all

lemma JSON_roundtrip:
  assumes "canonical v" and "JSON_stringify v = Some t"
  shows "JSON_parse t = Some v"
proof -
  have "tokenize (t @ []) = map_option ((@) (tokens_of v)) (tokenize [])"
    using assms by (intro tokenize_stringify) simp_all
  then have "tokenize t = Some (tokens_of v)" by simp
  moreover have "parse_tokens Want [] (tokens_of v @ []) = parse_tokens (Have v) [] []"
    using assms(1) by (rule parse_tokens_of)
  ultimately show ?thesis
    by (simp add: JSON_parse_def)
qed

section \<open>The words of the built command lines\<close>

lemma scan_unit:
  assumes "c \<noteq> 0x24" and "c \<noteq> 0x60"
  shows "scan_words (InQuote q) (quote_unit c @ rest) =
         scan_words (InQuote (q @ quote_unit c)) rest"
proof (cases c rule: quote_unit_cases)
  case esc
  then show ?thesis
    by (elim disjE) (simp_all add: quote_unit_def)
next
  case uni
  show ?thesis
    using hex_digit_plain [OF unat_div_4096 [of c]] hex_digit_plain [of "unat c div 256 mod 16"]
      hex_digit_plain [of "unat c div 16 mod 16"] hex_digit_plain [of "unat c mod 16"]
    by (simp add: uni unicode_escape_def Let_def)
next
  case raw
  with assms show ?thesis by simp
qed

lemma scan_quote_units:
  "expansion_free s \<Longrightarrow>
   scan_words (InQuote q) (quote_units s @ 0x22 # rest) =
   scan_words (Closed (q @ quote_units s)) rest"
proof (induction s arbitrary: q rule: quote_units.induct)
  case 1
  then show ?case by simp
next
  case (2 c)
  then show ?case by (simp add: scan_unit expansion_free_def)
next
  case (3 c d cs)
  from "3.prems" have e: "c \<noteq> 0x24" "c \<noteq> 0x60" "d \<noteq> 0x24" "d \<noteq> 0x60"
    and e1: "expansion_free (d # cs)" and e2: "expansion_free cs"
    by (simp_all add: expansion_free_def)
  show ?case
  proof (cases "is_lead c \<and> is_trail d")
    case True
    then have "c \<noteq> 0x22" "c \<noteq> 0x5C" "d \<noteq> 0x22" "d \<noteq> 0x5C"
      using surrogate_plain [of c] surrogate_plain [of d] by simp_all
    with True e "3.IH"(1) [OF True e2] show ?thesis by simp
  next
    case False
    then have "quote_units (c # d # cs) = quote_unit c @ quote_units (d # cs)"
      by auto
    with False e "3.IH"(2) [OF False e1] show ?thesis
      by (simp add: scan_unit del: quote_units.simps)
  qed
qed

lemma scan_quoted:
  "expansion_free s \<Longrightarrow>
   scan_words Gap (QuoteJSONString s @ rest) = scan_words (Closed (quote_units s)) rest"
  using scan_quote_units [of s "[]" rest] by (simp add: QuoteJSONString_def sh_blank_def)












section \<open>Quote removal of a quoted prompt\<close>

lemma sh_dquote_plain:
  "c \<noteq> 0x24 \<Longrightarrow> c \<noteq> 0x60 \<Longrightarrow> c \<noteq> 0x5C \<Longrightarrow>
   sh_dquote_value (c # r) = map_option (Cons c) (sh_dquote_value r)"
  by (cases r) simp_all

lemma sh_dquote_unit:
  assumes "shell_safe c"
  shows "sh_dquote_value (quote_unit c @ r) = map_option (Cons c) (sh_dquote_value r)"
proof -
  from assms have c: "\<not> c < 0x20" "c \<noteq> 0x24" "c \<noteq> 0x60" "\<not> is_lead c" "\<not> is_trail c"
    by (simp_all add: shell_safe_def)
  then have n: "c \<noteq> 0x08" "c \<noteq> 0x09" "c \<noteq> 0x0A" "c \<noteq> 0x0C" "c \<noteq> 0x0D"
    by auto
  show ?thesis
  proof (cases "c = 0x22 \<or> c = 0x5C")
    case True
    then show ?thesis
      by (elim disjE) (simp_all add: quote_unit_def)
  next
    case False
    with c n have "quote_unit c = [c]"
      by (simp add: quote_unit_def)
    with False c show ?thesis
      by (simp add: sh_dquote_plain)
  qed
qed

lemma quote_units_safe:
  "shell_safe c \<Longrightarrow> quote_units (c # cs) = quote_unit c @ quote_units cs"
  by (cases cs) (simp_all add: shell_safe_def)

lemma sh_dquote_quote_units:
  "list_all shell_safe s \<Longrightarrow> sh_dquote_value (quote_units s) = Some s"
proof (induction s)
  case Nil
  then show ?case by simp
next
  case (Cons c cs)
  then show ?case
    by (simp add: quote_units_safe sh_dquote_unit del: quote_units.simps sh_dquote_value.simps)
qed

text \<open>
  A prompt of safe characters (double quotes, single quotes and backslashes are among
  them) reaches the tool as it is.
\<close>

lemma safe_prompt_argument:
  assumes "list_all shell_safe txt"
  shows "sh_argv (fullCmd (executeClaude_command txt None)) =
           Some [ascii ''claude'', ascii ''-p'', txt, ascii ''--output-format'', ascii ''json'']"
    and "sh_argv (fullCmd (executeClaudeReply_command txt None None)) =
           Some [ascii ''claude'', ascii ''-c'', ascii ''-p'', txt,
                 ascii ''--output-format'', ascii ''json'']"
proof -
  from assms have f: "expansion_free txt"
    by (auto simp: shell_safe_def expansion_free_def list_all_iff)
  show "sh_argv (fullCmd (executeClaude_command txt None)) =
           Some [ascii ''claude'', ascii ''-p'', txt, ascii ''--output-format'', ascii ''json'']"
    using sh_dquote_quote_units [OF assms]
    by (simp add: shell_defs Let_def ascii_def scan_quoted [OF f])
  show "sh_argv (fullCmd (executeClaudeReply_command txt None None)) =
           Some [ascii ''claude'', ascii ''-c'', ascii ''-p'', txt,
                 ascii ''--output-format'', ascii ''json'']"
    using sh_dquote_quote_units [OF assms]
    by (simp add: shell_defs Let_def ascii_def scan_quoted [OF f])
qed

section \<open>Trimming twice\<close>

lemma dropWhile_id: "xs = [] \<or> \<not> P (hd xs) \<Longrightarrow> dropWhile P xs = xs"
  by (cases xs) auto

lemma trim_aux:
  assumes a: "a = [] \<or> \<not> P (hd a)" and split: "rev a = pre @ b"
  shows "dropWhile P (rev b) = rev b"
proof (cases b)
  case Nil
  then show ?thesis by simp
next
  case (Cons x xs)
  from split have "rev (rev a) = rev (pre @ b)" by (rule arg_cong)
  then have eq: "a = rev b @ rev pre" by simp
  from Cons have ne: "rev b \<noteq> []" by simp
  with eq have "hd a = hd (rev b)" and "a \<noteq> []" by simp_all
  with a have "\<not> P (hd (rev b))" by simp
  then show ?thesis by (intro dropWhile_id) simp
qed

lemma trim_trim: "trim (trim s) = trim s"
proof -
  define a where "a = dropWhile is_js_ws s"
  define b where "b = dropWhile is_js_ws (rev a)"
  have ha: "a = [] \<or> \<not> is_js_ws (hd a)"
    unfolding a_def by (metis hd_dropWhile)
  have hb: "b = [] \<or> \<not> is_js_ws (hd b)"
    unfolding b_def by (metis hd_dropWhile)
  have "rev a = takeWhile is_js_ws (rev a) @ b"
    unfolding b_def by (rule takeWhile_dropWhile_id [symmetric])
  with ha have 1: "dropWhile is_js_ws (rev b) = rev b"
    by (rule trim_aux)
  from hb have 2: "dropWhile is_js_ws b = b"
    by (rule dropWhile_id)
  have "trim s = rev b"
    by (simp only: trim_def a_def b_def)
  moreover have "trim (rev b) = rev b"
    by (simp only: trim_def 1 2 rev_rev_ident)
  ultimately show ?thesis by simp
qed

section \<open>Interpreting the sample outputs\<close>


lemma structured_props:
  "get_prop (structured_record r s b) (ascii ''result'') = Some (JStr r)"
  "get_prop (structured_record r s b) (ascii ''session_id'') = Some (JStr s)"
  "get_prop (structured_record r s b) (ascii ''is_error'') = Some (JBool b)"
  by (simp_all add: structured_record_def ascii_def)

lemma interpret_structured:
  assumes "length (structured_text r s b) \<le> max_output"
  shows "parseClaudeJsonResponse (structured_text r s b) =
     Some \<lparr>response = (if r = [] then JStr (structured_text r s b) else JStr r),
           ClaudeResponse.sessionId = (if s = [] then JNull else JStr s),
           ParsedResponse.isError = JBool b\<rparr>"
proof -
  obtain kvs where k: "structured_record r s b = JObj kvs"
    by (simp add: structured_record_def)
  have gp: "get_prop (JObj kvs) (ascii ''result'') = Some (JStr r)"
    "get_prop (JObj kvs) (ascii ''session_id'') = Some (JStr s)"
    "get_prop (JObj kvs) (ascii ''is_error'') = Some (JBool b)"
    using structured_props [of r s b] by (simp_all only: k)
  have st: "JSON_stringify (JObj kvs) = Some (structured_text r s b)"
    using stringify_structured [of r s b] by (simp only: k)
  have "nesting (structured_record r s b) \<le> max_nesting"
    by (simp add: structured_record_def max_nesting_def)
  with assms have lim: "within_limits (structured_text r s b) (JObj kvs)"
    by (simp add: within_limits_def k)
  show ?thesis
    by (simp add: parseClaudeJsonResponse_def parse_structured k gp st lim
          del: JSON_stringify.simps get_prop.simps)
qed

lemma quote_unit_length: "length (quote_unit c) \<le> 6"
  by (simp add: quote_unit_def unicode_escape_def Let_def)

lemma quote_units_length: "length (quote_units x) \<le> 6 * length x"
proof (induction x rule: quote_units.induct)
  case 1
  show ?case by simp
next
  case (2 c)
  show ?case using quote_unit_length [of c] by simp
next
  case (3 c d cs)
  then show ?case using quote_unit_length [of c] by auto
qed

lemma field_names_quoted:
  "quote_units (ascii ''result'') = ascii ''result''"
  "quote_units (ascii ''session_id'') = ascii ''session_id''"
  "quote_units (ascii ''is_error'') = ascii ''is_error''"
  by (simp_all add: ascii_def quote_defs)

lemma structured_text_length:
  "length (structured_text r s b) =
     length (quote_units r) + length (quote_units s) + (if b then 45 else 46)"
  by (simp add: structured_text_def QuoteJSONString_def field_names_quoted)
     (simp add: ascii_def)

lemma short_structured_text:
  assumes "length r + length s \<le> 1000"
  shows "length (structured_text r s b) \<le> max_output"
proof -
  have "length (structured_text r s b) \<le> 6 * length r + 6 * length s + 46"
    using quote_units_length [of r] quote_units_length [of s]
    by (simp add: structured_text_length)
  also have "\<dots> \<le> 6046"
    using assms by linarith
  also have "\<dots> \<le> max_output"
    by (simp add: max_output_def)
  finally show ?thesis .
qed

lemma interpret_fields:
  assumes "JSON_parse out = Some (JObj kvs)"
    and "JSON_stringify (JObj kvs) = Some t"
    and "map_of kvs (ascii ''result'') = Some (JStr r)"
    and "map_of kvs (ascii ''session_id'') = Some (JStr s)"
    and "map_of kvs (ascii ''is_error'') = Some (JBool b)"
    and "within_limits out (JObj kvs)"
  shows "parseClaudeJsonResponse out =
       Some \<lparr>response = (if r = [] then JStr t else JStr r),
             ClaudeResponse.sessionId = (if s = [] then JNull else JStr s),
             ParsedResponse.isError = JBool b\<rparr>"
  using assms by (simp add: parseClaudeJsonResponse_def Let_def del: JSON_stringify.simps)

lemma sample_canonical: "canonical (JObj sample_props)"
  by (simp add: sample_props_def obj_put_def array_index_def ascii_def is_digit_def)

lemma sample_fields:
  "map_of sample_props (ascii ''result'') = Some (JStr (ascii ''Hello, how can I help you?''))"
  "map_of sample_props (ascii ''session_id'') = Some (JStr (ascii ''test-session-id''))"
  "map_of sample_props (ascii ''is_error'') = Some (JBool False)"
  by (simp_all add: sample_props_def ascii_def)

lemma sample_serialized:
  "\<exists>t. JSON_stringify (JObj sample_props) = Some t \<and> within_limits t (JObj sample_props)"
  by (simp add: sample_props_def within_limits_def max_output_def max_nesting_def quote_defs
        ascii_def)

lemma out_ok_text:
  "out_ok = 0x7B # 0x22 # ascii ''result'' @ 0x22 # 0x3A # 0x22 # ascii ''OK'' @ [0x22, 0x7D]"
  by (simp add: out_ok_def ascii_def quote_defs)

lemma parse_out_ok:
  "JSON_parse out_ok = Some (JObj [(ascii ''result'', JStr (ascii ''OK''))])"
  by (simp add: out_ok_def lexer_defs parser_defs quote_defs)

lemma out_ok_limits: "within_limits out_ok (JObj [(ascii ''result'', JStr (ascii ''OK''))])"
  by (simp add: within_limits_def max_nesting_def max_output_def out_ok_text ascii_def)

lemma interpret_out_ok:
  "parseClaudeJsonResponse out_ok =
     Some \<lparr>response = JStr (ascii ''OK''), ClaudeResponse.sessionId = JNull,
           ParsedResponse.isError = JBool False\<rparr>"
  by (simp add: parseClaudeJsonResponse_def parse_out_ok out_ok_limits)
     (simp add: ascii_def)

lemma trim_bom_out: "trim bom_out = out_ok"
  by (simp add: bom_out_def out_ok_text trim_def is_js_ws_def ascii_def)

lemma parse_bom_out: "JSON_parse bom_out = None"
  by (simp add: bom_out_def JSON_parse_def is_json_ws_def next_token_def is_digit_def)

lemma trim_plain_text:
  "trim (ascii ''plain text'' @ [0x0A]) = ascii ''plain text''"
  by (simp add: trim_def is_js_ws_def ascii_def)

lemma parse_plain_text:
  "JSON_parse (ascii ''plain text'' @ [0x0A]) = None" "JSON_parse (ascii ''plain text'') = None"
  by (simp_all add: JSON_parse_def lexer_defs)






section \<open>The claims\<close>

subsection \<open>C1: escaping safety\<close>

text \<open>
  C1 says that for every prompt, also one with embedded newlines, the shell that runs
  the built command line gives the external tool the exact prompt as one argument.
  The program quotes the prompt with \<open>JSON.stringify\<close>, which writes a newline as a
  backslash and the letter n; inside double quotes the shell keeps that pair as it is.
  For the prompt made of \<open>a\<close>, a newline and \<open>b\<close> the tool receives the four
  characters \<open>a\<close>, backslash, \<open>n\<close>, \<open>b\<close>, from the start operation and from the
  continue operation alike. (Lemma \<open>safe_prompt_argument\<close> above gives the prompts
  that do arrive as they are.)
\<close>

theorem newline_prompt_reaches_tool_escaped:
  "sh_argv (fullCmd (executeClaude_command [0x61, 0x0A, 0x62] None)) =
     Some [ascii ''claude'', ascii ''-p'', [0x61, 0x5C, 0x6E, 0x62],
           ascii ''--output-format'', ascii ''json'']
   \<and> sh_argv (fullCmd (executeClaudeReply_command [0x61, 0x0A, 0x62] None None)) =
     Some [ascii ''claude'', ascii ''-c'', ascii ''-p'', [0x61, 0x5C, 0x6E, 0x62],
           ascii ''--output-format'', ascii ''json'']"
  by (simp add: shell_defs quote_defs ascii_def)

subsection \<open>C2: round-trip decoding\<close>

text \<open>
  C2 says that interpreting the serialized text of a record that has the fields
  \<open>result\<close>, \<open>session_id\<close> and \<open>is_error\<close> recovers exactly the three values. As
  amended, for a record whose serialized text is within the limits below which
  serializing cannot fail (\<open>within_limits\<close>): the error flag is recovered; the result
  is recovered when it is not empty, and an empty result gives the serialized record
  itself as the response; the session identifier is recovered when it is not empty, and
  an empty one gives an absent identifier. The record may have any other fields.
\<close>

theorem structured_record_roundtrip:
  assumes canon: "canonical (JObj kvs)"
    and ser: "JSON_stringify (JObj kvs) = Some t"
    and limits: "within_limits t (JObj kvs)"
    and fields: "map_of kvs (ascii ''result'') = Some (JStr r)"
      "map_of kvs (ascii ''session_id'') = Some (JStr s)"
      "map_of kvs (ascii ''is_error'') = Some (JBool b)"
  shows "parseClaudeJsonResponse t =
       Some \<lparr>response = (if r = [] then JStr t else JStr r),
             ClaudeResponse.sessionId = (if s = [] then JNull else JStr s),
             ParsedResponse.isError = JBool b\<rparr>"
  using JSON_roundtrip [OF canon ser] ser fields limits by (rule interpret_fields)

text \<open>The record of the first test of the interpreter.\<close>

theorem structured_record_roundtrip_witness:
  "\<exists>t. JSON_stringify (JObj sample_props) = Some t
     \<and> parseClaudeJsonResponse t =
         Some \<lparr>response = JStr (ascii ''Hello, how can I help you?''),
               ClaudeResponse.sessionId = JStr (ascii ''test-session-id''),
               ParsedResponse.isError = JBool False\<rparr>"
proof -
  obtain t where t: "JSON_stringify (JObj sample_props) = Some t"
    and l: "within_limits t (JObj sample_props)"
    using sample_serialized by blast
  have 1: "ascii ''Hello, how can I help you?'' \<noteq> []" "ascii ''test-session-id'' \<noteq> []"
    by (simp_all add: ascii_def)
  from structured_record_roundtrip [OF sample_canonical t l sample_fields] 1
  have "parseClaudeJsonResponse t =
         Some \<lparr>response = JStr (ascii ''Hello, how can I help you?''),
               ClaudeResponse.sessionId = JStr (ascii ''test-session-id''),
               ParsedResponse.isError = JBool False\<rparr>"
    by simp
  with t show ?thesis by blast
qed

text \<open>
  The claim as stated fails for the record with an empty result, the session identifier
  \<open>abc\<close> and the error flag false: the response is not the empty text.
\<close>

theorem empty_result_not_recovered:
  "JSON_stringify (structured_record [] (ascii ''abc'') False) =
     Some (structured_text [] (ascii ''abc'') False)
   \<and> parseClaudeJsonResponse (structured_text [] (ascii ''abc'') False) \<noteq>
       Some \<lparr>response = JStr [], ClaudeResponse.sessionId = JStr (ascii ''abc''),
             ParsedResponse.isError = JBool False\<rparr>"
proof -
  have "length (structured_text [] (ascii ''abc'') False) \<le> max_output"
    by (rule short_structured_text) (simp add: ascii_def)
  then show ?thesis
    by (simp add: stringify_structured interpret_structured del: JSON_stringify.simps)
       (simp add: structured_text_def)
qed

subsection \<open>C3: continuation fallback\<close>

text \<open>
  C3: when the continue operation is called with an identifier \<open>X\<close> (a non-empty text)
  and the interpreted output of the run has no session identifier, the result of the
  operation has \<open>sessionId = X\<close>.
\<close>

theorem continuation_fallback:
  assumes supplied: "X \<noteq> []"
    and run: "execFn (executeClaudeReply_command txt (Some X) options)
                \<lparr>cwd = opt_field cwd options\<rparr> = Inr res"
    and interp: "parseClaudeJsonResponse (stdout res) = Some p"
    and nosid: "ClaudeResponse.sessionId p = JNull"
  shows "fst (executeClaudeReply execFn txt (Some X) options calls) =
           Returned \<lparr>response = response p, ClaudeResponse.sessionId = JStr X\<rparr>"
  using assms by (simp add: executeClaudeReply_def Let_def finalSessionId_def str_truthy_def)

text \<open>The test of the repository: the output \<open>{"result":"OK"}\<close> has no session identifier.\<close>

theorem continuation_fallback_witness:
  "fst (executeClaudeReply (exec_returns out_ok) (ascii ''Test'')
          (Some (ascii ''original-session-id'')) None []) =
     Returned \<lparr>response = JStr (ascii ''OK''),
               ClaudeResponse.sessionId = JStr (ascii ''original-session-id'')\<rparr>"
proof -
  have 1: "ascii ''original-session-id'' \<noteq> []"
    by (simp add: ascii_def)
  have 2: "exec_returns out_ok
             (executeClaudeReply_command (ascii ''Test'') (Some (ascii ''original-session-id'')) None)
             \<lparr>cwd = opt_field cwd None\<rparr> = Inr \<lparr>stdout = out_ok, stderr = []\<rparr>"
    by (simp add: exec_returns_def)
  have 3: "parseClaudeJsonResponse (stdout \<lparr>stdout = out_ok, stderr = []\<rparr>) =
     Some \<lparr>response = JStr (ascii ''OK''), ClaudeResponse.sessionId = JNull,
           ParsedResponse.isError = JBool False\<rparr>"
    by (simp add: interpret_out_ok)
  show ?thesis
    using continuation_fallback [of "ascii ''original-session-id''" "exec_returns out_ok"
        "ascii ''Test''" None "\<lparr>stdout = out_ok, stderr = []\<rparr>"
        "\<lparr>response = JStr (ascii ''OK''), ClaudeResponse.sessionId = JNull,
          ParsedResponse.isError = JBool False\<rparr>" "[]", OF 1 2 3]
    by simp
qed

subsection \<open>C4: build-time error\<close>

text \<open>
  C4 says that a request with an empty prompt fails before the execution function is
  invoked. The program has no such check. As amended: for every prompt text, the empty
  one included, the start operation and the continue operation invoke the execution
  function exactly once, with the command line they built, and they throw exactly
  when that call throws.
\<close>

theorem exec_called_for_every_prompt:
  "snd (executeClaude execFn txt options calls) =
     calls @ [(executeClaude_command txt options, \<lparr>cwd = opt_field cwd options\<rparr>)]
   \<and> snd (executeClaudeReply execFn txt sid options calls) =
     calls @ [(executeClaudeReply_command txt sid options, \<lparr>cwd = opt_field cwd options\<rparr>)]
   \<and> (fst (executeClaude execFn txt options calls) = Threw e) =
       (execFn (executeClaude_command txt options) \<lparr>cwd = opt_field cwd options\<rparr> = Inl e)
   \<and> (fst (executeClaudeReply execFn txt sid options calls) = Threw e) =
       (execFn (executeClaudeReply_command txt sid options) \<lparr>cwd = opt_field cwd options\<rparr>
          = Inl e)"
  by (auto simp: executeClaude_def executeClaudeReply_def Let_def split: sum.splits option.splits)

text \<open>
  With the empty prompt the start operation calls the execution function with
  \<open>claude -p "" --output-format json\<close> and returns its interpreted output.
\<close>

theorem empty_prompt_is_executed:
  "executeClaude (exec_returns out_ok) [] None [] =
     (Returned \<lparr>response = JStr (ascii ''OK''), ClaudeResponse.sessionId = JNull\<rparr>,
      [(ascii ''claude -p '' @ [0x22, 0x22] @ ascii '' --output-format json'', \<lparr>cwd = None\<rparr>)])"
  by (simp add: executeClaude_def Let_def exec_returns_def interpret_out_ok
        executeClaude_command_def opt_field_def str_truthy_def QuoteJSONString_def)

subsection \<open>C5: mode selection\<close>




subsection \<open>C6: system-prompt asymmetry\<close>




subsection \<open>C7: fallback idempotence\<close>

text \<open>
  C7 says that a text \<open>T\<close> on which decoding fails is interpreted as the response
  \<open>trim T\<close> with no session identifier and no error, and that interpreting that
  response again gives the same result. As amended: the first part as stated, and the
  second part whenever decoding fails on the trimmed text as well.
\<close>

theorem fallback_interpretation:
  assumes "JSON_parse T = None"
  shows "parseClaudeJsonResponse T =
           Some \<lparr>response = JStr (trim T), ClaudeResponse.sessionId = JNull,
                 ParsedResponse.isError = JBool False\<rparr>
       \<and> (JSON_parse (trim T) = None \<longrightarrow>
            parseClaudeJsonResponse (trim T) =
              Some \<lparr>response = JStr (trim T), ClaudeResponse.sessionId = JNull,
                    ParsedResponse.isError = JBool False\<rparr>)"
  using assms by (simp add: parseClaudeJsonResponse_def parse_fallback_def trim_trim)

text \<open>The text \<open>plain text\<close> followed by a newline.\<close>

theorem fallback_interpretation_witness:
  "parseClaudeJsonResponse (ascii ''plain text'' @ [0x0A]) =
     Some \<lparr>response = JStr (ascii ''plain text''), ClaudeResponse.sessionId = JNull,
           ParsedResponse.isError = JBool False\<rparr>
   \<and> parseClaudeJsonResponse (ascii ''plain text'') =
     Some \<lparr>response = JStr (ascii ''plain text''), ClaudeResponse.sessionId = JNull,
           ParsedResponse.isError = JBool False\<rparr>"
  using fallback_interpretation [of "ascii ''plain text'' @ [0x0A]", OF parse_plain_text(1)]
  by (simp add: trim_plain_text parse_plain_text(2))

text \<open>
  The claim as stated fails for the output \<open>{"result":"OK"}\<close> after a byte order mark:
  decoding fails because of the mark, \<open>trim\<close> removes it, and the response, read again,
  decodes to the response \<open>OK\<close>.
\<close>

theorem fallback_not_idempotent:
  "JSON_parse bom_out = None
   \<and> parseClaudeJsonResponse bom_out =
       Some \<lparr>response = JStr out_ok, ClaudeResponse.sessionId = JNull,
             ParsedResponse.isError = JBool False\<rparr>
   \<and> parseClaudeJsonResponse out_ok =
       Some \<lparr>response = JStr (ascii ''OK''), ClaudeResponse.sessionId = JNull,
             ParsedResponse.isError = JBool False\<rparr>
   \<and> out_ok \<noteq> ascii ''OK''"
  by (simp add: parse_bom_out parseClaudeJsonResponse_def [of bom_out] parse_fallback_def
        trim_bom_out interpret_out_ok)
     (simp add: out_ok_text ascii_def)

subsection \<open>C8: a failed execution becomes an error result\<close>

text \<open>
  C8: when a tool call names one of the two tools and the execution function throws,
  \<open>handleToolCall\<close> does not throw: it returns a result whose \<open>isError\<close> is true and
  whose text is \<open>Error executing claude: \<close> followed by the message of the error.
\<close>

theorem exec_failure_is_error_result:
  assumes known: "name = ascii ''chat'' \<or> name = ascii ''chat-reply''"
    and throws: "execFn (tool_command name args) \<lparr>cwd = cwd args\<rparr> = Inl (Error message)"
  shows "fst (handleToolCall execFn name args calls) =
           Returned \<lparr>content = [JStr (ascii ''Error executing claude: '' @ message)],
                     isError = Some True, meta = None\<rparr>"
proof (cases "name = ascii ''chat''")
  case True
  with throws show ?thesis
    by (simp add: handleToolCall_def handleClaude_def executeClaude_def Let_def
          tool_command_def tool_options_def opt_field_def ClaudeArgs.truncate_def)
next
  case False
  with known have "name = ascii ''chat-reply''" by simp
  with False throws show ?thesis
    by (simp add: handleToolCall_def handleClaudeReply_def executeClaudeReply_def Let_def
          tool_command_def tool_options_def opt_field_def)
qed

text \<open>The test of the repository: the execution function throws \<open>Claude CLI not found\<close>.\<close>

theorem exec_failure_is_error_result_witness:
  "fst (handleToolCall (exec_throws (ascii ''Claude CLI not found'')) (ascii ''chat'')
          hello_args []) =
     Returned \<lparr>content = [JStr (ascii ''Error executing claude: Claude CLI not found'')],
               isError = Some True, meta = None\<rparr>"
proof -
  have 1: "ascii ''chat'' = ascii ''chat'' \<or> ascii ''chat'' = ascii ''chat-reply''"
    by simp
  have 2: "exec_throws (ascii ''Claude CLI not found'') (tool_command (ascii ''chat'') hello_args)
             \<lparr>cwd = cwd hello_args\<rparr> = Inl (Error (ascii ''Claude CLI not found''))"
    by (simp add: exec_throws_def)
  show ?thesis
    using exec_failure_is_error_result [of "ascii ''chat''"
        "exec_throws (ascii ''Claude CLI not found'')" hello_args
        "ascii ''Claude CLI not found''" "[]", OF 1 2]
    by (simp add: ascii_def)
qed

subsection \<open>C9: a reported error is ordinary output\<close>




subsection \<open>C10: falsy fields\<close>



end
